theory Spec2Isabelle
  imports Complex_Main "HOL-Library.Word"
begin

section \<open>Values shared by the two checks\<close>

subsection \<open>Doubles\<close>

text \<open>
  A C++ \<open>double\<close> is a finite number, one of the two infinities, or NaN. The special
  values are kept because the code produces them itself (\<open>0/0\<close> for an empty
  population, \<open>sqrt\<close> of a negative sum, \<open>quiet_NaN()\<close> in the diagnostics) and every
  comparison with NaN is false. Finite values are exact reals: binary64 rounding and
  overflow, and the sign of zero, are outside this model.
\<close>

datatype double = Num real | PInf | NInf | NaN

fun dneg :: "double \<Rightarrow> double" where
  "dneg (Num x) = Num (- x)"
| "dneg PInf = NInf"
| "dneg NInf = PInf"
| "dneg NaN = NaN"

fun dadd :: "double \<Rightarrow> double \<Rightarrow> double" where
  "dadd NaN _ = NaN"
| "dadd _ NaN = NaN"
| "dadd (Num x) (Num y) = Num (x + y)"
| "dadd PInf NInf = NaN"
| "dadd NInf PInf = NaN"
| "dadd PInf _ = PInf"
| "dadd _ PInf = PInf"
| "dadd NInf _ = NInf"
| "dadd _ NInf = NInf"

definition dsub :: "double \<Rightarrow> double \<Rightarrow> double" where
  "dsub a b = dadd a (dneg b)"

definition signed_inf :: "bool \<Rightarrow> double" where
  "signed_inf positive = (if positive then PInf else NInf)"

fun dmul :: "double \<Rightarrow> double \<Rightarrow> double" where
  "dmul NaN _ = NaN"
| "dmul _ NaN = NaN"
| "dmul (Num x) (Num y) = Num (x * y)"
| "dmul (Num x) PInf = (if x = 0 then NaN else signed_inf (0 < x))"
| "dmul (Num x) NInf = (if x = 0 then NaN else signed_inf (x < 0))"
| "dmul PInf (Num y) = (if y = 0 then NaN else signed_inf (0 < y))"
| "dmul NInf (Num y) = (if y = 0 then NaN else signed_inf (y < 0))"
| "dmul PInf PInf = PInf"
| "dmul NInf NInf = PInf"
| "dmul PInf NInf = NInf"
| "dmul NInf PInf = NInf"

text \<open>Division; a zero divisor is \<open>+0.0\<close> (every divisor in the code is a converted
  \<open>size_t\<close> or the literal \<open>1e9\<close>).\<close>

fun ddiv :: "double \<Rightarrow> double \<Rightarrow> double" where
  "ddiv NaN _ = NaN"
| "ddiv _ NaN = NaN"
| "ddiv (Num x) (Num y) =
     (if y = 0 then (if x = 0 then NaN else signed_inf (0 < x)) else Num (x / y))"
| "ddiv (Num x) PInf = Num 0"
| "ddiv (Num x) NInf = Num 0"
| "ddiv PInf (Num y) = signed_inf (0 \<le> y)"
| "ddiv NInf (Num y) = signed_inf (y < 0)"
| "ddiv PInf PInf = NaN"
| "ddiv NInf NInf = NaN"
| "ddiv PInf NInf = NaN"
| "ddiv NInf PInf = NaN"

fun dlt :: "double \<Rightarrow> double \<Rightarrow> bool" where
  "dlt NaN _ = False"
| "dlt _ NaN = False"
| "dlt (Num x) (Num y) = (x < y)"
| "dlt _ NInf = False"
| "dlt PInf _ = False"
| "dlt NInf _ = True"
| "dlt _ PInf = True"

definition dgt :: "double \<Rightarrow> double \<Rightarrow> bool" where
  "dgt a b = dlt b a"

definition dle :: "double \<Rightarrow> double \<Rightarrow> bool" where
  "dle a b = (a \<noteq> NaN \<and> b \<noteq> NaN \<and> \<not> dlt b a)"

definition dge :: "double \<Rightarrow> double \<Rightarrow> bool" where
  "dge a b = dle b a"

definition dne :: "double \<Rightarrow> double \<Rightarrow> bool" where
  "dne a b = (a = NaN \<or> b = NaN \<or> a \<noteq> b)"

fun dabs :: "double \<Rightarrow> double" where
  "dabs (Num x) = Num \<bar>x\<bar>"
| "dabs PInf = PInf"
| "dabs NInf = PInf"
| "dabs NaN = NaN"

fun dsqrt :: "double \<Rightarrow> double" where
  "dsqrt (Num x) = (if x < 0 then NaN else Num (sqrt x))"
| "dsqrt PInf = PInf"
| "dsqrt NInf = NaN"
| "dsqrt NaN = NaN"

text \<open>\<open>std::max(a, b)\<close> is \<open>(a < b) ? b : a\<close>.\<close>

definition dmax :: "double \<Rightarrow> double \<Rightarrow> double" where
  "dmax a b = (if dlt a b then b else a)"

text \<open>\<open>(double)n\<close> for a \<open>size_t\<close> or an integer timestamp field.\<close>

definition double_of_nat :: "nat \<Rightarrow> double" where
  "double_of_nat n = Num (real n)"

definition double_of_int :: "int \<Rightarrow> double" where
  "double_of_int i = Num (real_of_int i)"

subsection \<open>Assurance levels and the base check\<close>

datatype AssuranceLevel = Unavailable | Assured | Inconsistent | Unassured

text \<open>Modelled from the spec: the enumeration \<open>data::AssuranceLevel\<close> is declared in a
  header outside the two source files modelled here. Section 3 of the specification lists
  the enumerators as Unavailable, Assured, Inconsistent, Unassured, ordered by
  increasing distrust, and \<open>std::max_element\<close> compares them by this value.\<close>

fun levelCode :: "AssuranceLevel \<Rightarrow> nat" where
  "levelCode Unavailable = 0"
| "levelCode Assured = 1"
| "levelCode Inconsistent = 2"
| "levelCode Unassured = 3"

definition level_less :: "AssuranceLevel \<Rightarrow> AssuranceLevel \<Rightarrow> bool" where
  "level_less a b = (levelCode a < levelCode b)"

record GeodeticPosition3d =
  latitude :: double
  longitude :: double
  altitude :: double

datatype LogLevel = Debug | Error

text \<open>The state every check inherits from \<open>AssuranceCheck\<close>. Of the log only the
  entries of level \<open>Error\<close> are kept; the \<open>Debug\<close> lines format numbers and decide
  nothing.\<close>

record AssuranceCheck =
  assuranceLevel :: AssuranceLevel
  lastAssuranceUpdate :: double
  lastKnownGoodSet :: bool
  lastKnownGoodPosition :: GeodeticPosition3d
  lastKnownGoodPositionTime :: double
  logged :: "(LogLevel \<times> string) list"

text \<open>Modelled from the spec: \<open>AssuranceCheck::changeAssuranceLevel\<close> belongs to the
  base class, whose source is outside the files modelled here. Section 4.1: it replaces the current level
  and records the decision time, and always succeeds.\<close>

definition changeAssuranceLevel ::
  "double \<Rightarrow> AssuranceLevel \<Rightarrow> 'a AssuranceCheck_scheme \<Rightarrow> 'a AssuranceCheck_scheme" where
  "changeAssuranceLevel updateTime newLevel s =
     s\<lparr>assuranceLevel := newLevel, lastAssuranceUpdate := updateTime\<rparr>"

text \<open>Modelled from the spec: \<open>AssuranceCheck::setLastGoodPosition\<close> of the base class
  records a trusted reference position and its timestamp (section 4.1).\<close>

definition base_setLastGoodPosition ::
  "double \<Rightarrow> GeodeticPosition3d \<Rightarrow> 'a AssuranceCheck_scheme \<Rightarrow> 'a AssuranceCheck_scheme" where
  "base_setLastGoodPosition updateTime p s =
     s\<lparr>lastKnownGoodSet := True, lastKnownGoodPosition := p,
       lastKnownGoodPositionTime := updateTime\<rparr>"

definition logMsg ::
  "string \<Rightarrow> LogLevel \<Rightarrow> 'a AssuranceCheck_scheme \<Rightarrow> 'a AssuranceCheck_scheme" where
  "logMsg msg lvl s = s\<lparr>logged := logged s @ [(lvl, msg)]\<rparr>"

section \<open>PositionJumpCheck\<close>

record Timestamp =
  sec :: int
  nanoseconds :: int

record PositionVelocity =
  timestampValid :: Timestamp
  position :: GeodeticPosition3d
  covariance :: "nat \<Rightarrow> nat \<Rightarrow> double"

record PosJumpCheckDiagnostics =
  bound :: double
  distance :: double

text \<open>The members of \<open>PositionJumpCheck\<close>. \<open>publishDiagnostics\<close> says whether a
  diagnostics sink is set, and \<open>published\<close> collects what was handed to it.
  \<open>converterReference\<close> is the reference point held by \<open>geodeticConverter_\<close>.\<close>

record PositionJumpCheck = AssuranceCheck +
  useDistTraveled :: bool
  useEstimatedPv :: bool
  minimumBound :: double
  maximumVelocity :: double
  posStdDevMultiplier :: double
  positionJumpBound :: double
  distanceTraveled :: double
  distanceTraveledReceived :: bool
  distanceToLastGoodPos :: double
  currentEstimatedPosition :: GeodeticPosition3d
  currentEstPositionSet :: bool
  currentEstPosCovariance :: "nat \<Rightarrow> nat \<Rightarrow> double"
  converterReference :: GeodeticPosition3d
  lastReceiverPv :: PositionVelocity
  publishDiagnostics :: bool
  published :: "(double \<times> PosJumpCheckDiagnostics) list"

text \<open>Modelled from the spec: \<open>checkDistance\<close> is declared outside the files modelled here.
  Sections 4.3 and 8: the position has jumped when the distance exceeds the bound, and
  a distance equal to the bound has not.\<close>

definition checkDistance :: "double \<Rightarrow> double \<Rightarrow> bool" where
  "checkDistance d b = dgt d b"

definition handleEstimatedPositionVelocity ::
  "PositionVelocity \<Rightarrow> PositionJumpCheck \<Rightarrow> bool \<times> PositionJumpCheck" where
  "handleEstimatedPositionVelocity pv s =
     (if useEstimatedPv s \<and> dne (covariance pv 0 0) (Num 0)
      then (True, s\<lparr>currentEstimatedPosition := position pv,
                    currentEstPositionSet := True,
                    currentEstPosCovariance :=
                      (\<lambda>ii jj. if ii < 3 \<and> jj < 3 then covariance pv ii jj
                                else currentEstPosCovariance s ii jj),
                    converterReference := position pv\<rparr>)
      else (True, s))"

definition updateBound_error :: string where
  "updateBound_error =
     ''PositionJumpCheck::updateBound(): Function can only be called when '' @
     ''using distrance traveled for bound propagation. 'useDistTraveled_' '' @
     ''must be set to True''"

definition updateBound_time_error :: string where
  "updateBound_time_error =
     ''PositionJumpCheck::updateBound(updateTime): Function can only be '' @
     ''called when not using distrance traveled for bound propagation. 'useDi'' @
     ''stTraveled_' must be set to False''"

definition updateBound :: "PositionJumpCheck \<Rightarrow> PositionJumpCheck" where
  "updateBound s =
     (if useDistTraveled s
      then s\<lparr>positionJumpBound := dmax (minimumBound s) (distanceTraveled s)\<rparr>
      else logMsg updateBound_error Error s)"

definition updateBound_time :: "double \<Rightarrow> PositionJumpCheck \<Rightarrow> PositionJumpCheck" where
  "updateBound_time updateTime s =
     (if \<not> useDistTraveled s
      then (let dt = dsub updateTime (lastKnownGoodPositionTime s)
            in s\<lparr>positionJumpBound := dmax (minimumBound s) (dmul (maximumVelocity s) dt)\<rparr>)
      else logMsg updateBound_time_error Error s)"

definition setLastGoodPosition ::
  "double \<Rightarrow> GeodeticPosition3d \<Rightarrow> PositionJumpCheck \<Rightarrow> PositionJumpCheck" where
  "setLastGoodPosition updateTime p s =
     (let s1 = base_setLastGoodPosition updateTime p s;
          s2 = s1\<lparr>distanceTraveled := Num 0\<rparr>
      in if useDistTraveled s2 then s2\<lparr>positionJumpBound := minimumBound s2\<rparr> else s2)"

text \<open>The three branches of \<open>runCheck\<close>. Each returns the return value, the
  diagnostics record and the new state. \<open>calculateDistance\<close> and the converter's
  \<open>geodetic2Ned\<close> are collaborators outside the files modelled here and are parameters.\<close>

definition runCheck_lastGood ::
  "(GeodeticPosition3d \<Rightarrow> GeodeticPosition3d \<Rightarrow> double) \<Rightarrow> PositionJumpCheck
     \<Rightarrow> bool \<times> PosJumpCheckDiagnostics \<times> PositionJumpCheck" where
  "runCheck_lastGood calculateDistance s =
     (let t = double_of_int (sec (timestampValid (lastReceiverPv s)));
          s1 = s\<lparr>distanceToLastGoodPos :=
                   calculateDistance (position (lastReceiverPv s)) (lastKnownGoodPosition s)\<rparr>;
          s2 = (if checkDistance (distanceToLastGoodPos s1) (positionJumpBound s1)
                then changeAssuranceLevel t Unassured s1
                else changeAssuranceLevel t Assured s1)
      in (True,
          \<lparr>bound = positionJumpBound s2, distance = distanceToLastGoodPos s2\<rparr>,
          s2))"

definition runCheck_estimated ::
  "(GeodeticPosition3d \<Rightarrow> GeodeticPosition3d \<Rightarrow> double \<times> double \<times> double)
     \<Rightarrow> PositionJumpCheck \<Rightarrow> bool \<times> PosJumpCheckDiagnostics \<times> PositionJumpCheck" where
  "runCheck_estimated geodetic2Ned s =
     (let t = double_of_int (sec (timestampValid (lastReceiverPv s)));
          (north, east, down) =
             geodetic2Ned (converterReference s) (position (lastReceiverPv s));
          jump = dsqrt (dadd (dmul north north) (dmul east east));
          covN = currentEstPosCovariance s 0 0;
          covE = currentEstPosCovariance s 1 1;
          covarianceBound = dmul (posStdDevMultiplier s) (dsqrt (dadd covN covE));
          s1 = s\<lparr>positionJumpBound := dmax (minimumBound s) covarianceBound\<rparr>;
          positionJump = checkDistance jump (positionJumpBound s1);
          rcvrStdDev = dsqrt (dadd (covariance (lastReceiverPv s1) 0 0)
                                   (covariance (lastReceiverPv s1) 1 1));
          s2 = (if positionJump \<and> dgt rcvrStdDev (Num 30)
                then changeAssuranceLevel t Inconsistent s1
                else if positionJump
                then changeAssuranceLevel t Unassured s1
                else changeAssuranceLevel t Assured s1)
      in (True, \<lparr>bound = positionJumpBound s2, distance = jump\<rparr>, s2))"

definition runCheck_unavailable ::
  "PositionJumpCheck \<Rightarrow> bool \<times> PosJumpCheckDiagnostics \<times> PositionJumpCheck" where
  "runCheck_unavailable s =
     (let t = double_of_int (sec (timestampValid (lastReceiverPv s)))
      in (False, \<lparr>bound = NaN, distance = NaN\<rparr>, changeAssuranceLevel t Unavailable s))"

text \<open>The time \<open>runCheck\<close> computes from the header of the receiver fix: whole seconds
  plus nanoseconds over \<open>1e9\<close>.\<close>

definition updateTime_of :: "PositionVelocity \<Rightarrow> double" where
  "updateTime_of pv =
     dadd (double_of_int (sec (timestampValid pv)))
          (ddiv (double_of_int (nanoseconds (timestampValid pv))) (Num 1000000000))"

definition runCheck ::
  "(GeodeticPosition3d \<Rightarrow> GeodeticPosition3d \<Rightarrow> double)
     \<Rightarrow> (GeodeticPosition3d \<Rightarrow> GeodeticPosition3d \<Rightarrow> double \<times> double \<times> double)
     \<Rightarrow> PositionJumpCheck \<Rightarrow> bool \<times> PositionJumpCheck" where
  "runCheck calculateDistance geodetic2Ned s =
     (let updateTime = updateTime_of (lastReceiverPv s);
          s1 = (if \<not> useDistTraveled s \<and> \<not> useEstimatedPv s
                then updateBound_time updateTime (s\<lparr>distanceTraveledReceived := True\<rparr>)
                else s);
          (retVal, diagnostics, s2) =
            (if \<not> useEstimatedPv s1 \<and> lastKnownGoodSet s1 \<and> distanceTraveledReceived s1
             then runCheck_lastGood calculateDistance s1
             else if useEstimatedPv s1 \<and> currentEstPositionSet s1
             then runCheck_estimated geodetic2Ned s1
             else runCheck_unavailable s1)
      in (retVal,
          if publishDiagnostics s2
          then s2\<lparr>published := published s2 @ [(updateTime, diagnostics)]\<rparr>
          else s2))"

definition handlePositionVelocity ::
  "(GeodeticPosition3d \<Rightarrow> GeodeticPosition3d \<Rightarrow> double)
     \<Rightarrow> (GeodeticPosition3d \<Rightarrow> GeodeticPosition3d \<Rightarrow> double \<times> double \<times> double)
     \<Rightarrow> PositionVelocity \<Rightarrow> bool \<Rightarrow> PositionJumpCheck \<Rightarrow> bool \<times> PositionJumpCheck" where
  "handlePositionVelocity calculateDistance geodetic2Ned posVel localFlag s =
     (if localFlag
      then runCheck calculateDistance geodetic2Ned (s\<lparr>lastReceiverPv := posVel\<rparr>)
      else (True, s))"

subsection \<open>The bound invariant and sample states\<close>

definition bound_ok :: "PositionJumpCheck \<Rightarrow> bool" where
  "bound_ok s = dge (positionJumpBound s) (minimumBound s)"

definition bound_nonneg :: "PositionJumpCheck \<Rightarrow> bool" where
  "bound_nonneg s = dge (positionJumpBound s) (Num 0)"

text \<open>A toy tangent plane standing in for the two collaborators in examples:
  latitude and longitude are read as metres north and east.\<close>

definition flat_ned ::
  "GeodeticPosition3d \<Rightarrow> GeodeticPosition3d \<Rightarrow> double \<times> double \<times> double" where
  "flat_ned ref p =
     (dsub (latitude p) (latitude ref), dsub (longitude p) (longitude ref),
      dsub (altitude ref) (altitude p))"

definition flat_distance :: "GeodeticPosition3d \<Rightarrow> GeodeticPosition3d \<Rightarrow> double" where
  "flat_distance p q =
     dsqrt (dadd (dmul (dsub (latitude p) (latitude q)) (dsub (latitude p) (latitude q)))
                 (dmul (dsub (longitude p) (longitude q)) (dsub (longitude p) (longitude q))))"

definition point :: "real \<Rightarrow> real \<Rightarrow> GeodeticPosition3d" where
  "point n e = \<lparr>latitude = Num n, longitude = Num e, altitude = Num 0\<rparr>"

definition fix_at :: "int \<Rightarrow> GeodeticPosition3d \<Rightarrow> real \<Rightarrow> PositionVelocity" where
  "fix_at t p var =
     \<lparr>timestampValid = \<lparr>sec = t, nanoseconds = 0\<rparr>, position = p,
      covariance = (\<lambda>ii jj. if ii = 0 \<and> jj = 0 then Num var else Num 0)\<rparr>"

text \<open>A freshly configured check: the two mode flags, the minimum bound, and the
  receiver fix last handed in.\<close>

definition pj_sample :: "bool \<Rightarrow> bool \<Rightarrow> double \<Rightarrow> PositionVelocity \<Rightarrow> PositionJumpCheck" where
  "pj_sample distMode estMode minB pv =
     \<lparr>assuranceLevel = Unavailable, lastAssuranceUpdate = Num 0,
      lastKnownGoodSet = False, lastKnownGoodPosition = point 0 0,
      lastKnownGoodPositionTime = Num 0, logged = [],
      useDistTraveled = distMode, useEstimatedPv = estMode, minimumBound = minB,
      maximumVelocity = Num 5, posStdDevMultiplier = Num 3, positionJumpBound = minB,
      distanceTraveled = Num 0, distanceTraveledReceived = False,
      distanceToLastGoodPos = Num 0, currentEstimatedPosition = point 0 0,
      currentEstPositionSet = False, currentEstPosCovariance = (\<lambda>ii jj. Num 0),
      converterReference = point 0 0, lastReceiverPv = pv,
      publishDiagnostics = True, published = []\<rparr>"

section \<open>AngleOfArrivalCheck\<close>

subsection \<open>Ordered maps\<close>

text \<open>A \<open>std::map\<close> is its sequence of entries in iteration order, which is ascending
  key order with every key once. \<open>map_find\<close> is \<open>find\<close>, \<open>map_assign\<close> is
  \<open>m[k] = v\<close>, and \<open>push_back_at\<close> is \<open>m[k].push_back(v)\<close>, where \<open>m[k]\<close> first
  creates an empty vector when the key is new.\<close>

definition std_map :: "(nat \<times> 'v) list \<Rightarrow> bool" where
  "std_map m = sorted_wrt (<) (map fst m)"

fun map_find :: "nat \<Rightarrow> (nat \<times> 'v) list \<Rightarrow> 'v option" where
  "map_find k [] = None"
| "map_find k ((k', v) # m) =
     (if k = k' then Some v else if k < k' then None else map_find k m)"

fun map_assign :: "nat \<Rightarrow> 'v \<Rightarrow> (nat \<times> 'v) list \<Rightarrow> (nat \<times> 'v) list" where
  "map_assign k v [] = [(k, v)]"
| "map_assign k v ((k', v') # m) =
     (if k = k' then (k, v) # m
      else if k < k' then (k, v) # (k', v') # m
      else (k', v') # map_assign k v m)"

fun push_back_at :: "nat \<Rightarrow> 'v \<Rightarrow> (nat \<times> 'v list) list \<Rightarrow> (nat \<times> 'v list) list" where
  "push_back_at k v [] = [(k, [v])]"
| "push_back_at k v ((k', vs) # m) =
     (if k = k' then (k', vs @ [v]) # m
      else if k < k' then (k, [v]) # (k', vs) # m
      else (k', vs) # push_back_at k v m)"

text \<open>The votes stored for a key; none when the key is absent.\<close>

definition votes_at :: "nat \<Rightarrow> (nat \<times> 'v list) list \<Rightarrow> 'v list" where
  "votes_at k m = (case map_find k m of None \<Rightarrow> [] | Some vs \<Rightarrow> vs)"

definition vote_count :: "(nat \<times> 'v list) list \<Rightarrow> nat" where
  "vote_count m = sum_list (map (\<lambda>e. length (snd e)) m)"

subsection \<open>Data\<close>

record GNSSObservable =
  pseudorange :: double
  pseudorangeValid :: bool
  assurance :: AssuranceLevel

record GNSSObservables =
  deviceId :: string
  observables :: "(nat \<times> GNSSObservable) list"

record MeasuredRange =
  rangeValid :: bool
  range_value :: double

text \<open>What the two \<open>getData\<close> calls on a remote repository entry leave in \<open>remoteObs\<close>
  and \<open>range\<close>.\<close>

record RemoteEntry =
  remoteObs :: GNSSObservables
  remoteRange :: MeasuredRange

datatype AoaCheckData = UsePseudorange | UseCarrierPhase | UseBoth

type_synonym SingleDiffMap = "(nat \<times> double) list"

type_synonym PrnAssuranceEachNode = "(nat \<times> AssuranceLevel list) list"

record AoaCheckDiagnostics =
  singleDiffThresh :: double
  unavailablePrnPercent :: double
  suspectPrnPercent :: double
  assuredPrnPercent :: double
  inconsistentThresh :: double
  unassuredThresh :: double
  assuredThresh :: double

text \<open>The members of \<open>AngleOfArrivalCheck\<close> follow. Each of the two sinks is a flag
  (a callback is set) and the list of what was handed to it. Sizes of maps stay far
  below \<open>2\<^sup>6\<^sup>4\<close> and are natural numbers.\<close>

text \<open>Modelled from the spec: the type of \<open>prnCountThresh_\<close> is declared in a header
  outside the files modelled here; the specification calls the member the minimum PRN
  count. The code compares it, and \<open>prnCountThresh_ - 1\<close>, with \<open>size_t\<close> counts, so both
  comparisons are unsigned at 64 bits, and the member is kept as the 64-bit value it
  has in them.\<close>

record AngleOfArrivalCheck = AssuranceCheck +
  assuranceLevelPeriod :: double
  prnCountThresh :: "64 word"
  rangeThreshold :: double
  aoaCheckData :: AoaCheckData
  singleDiffCompareThresh :: double
  singleDiffCompareFailureLimit :: double
  assuranceUnassuredThresh :: double
  assuranceInconsistentThresh :: double
  assuranceAssuredThresh :: double
  prnAssuranceLevels :: "(nat \<times> AssuranceLevel) list"
  publishSingleDiffData :: bool
  publishedSingleDiffData :: "(double \<times> string \<times> SingleDiffMap) list"
  lastDiffPublishTime :: double
  publishDiagnostics_aoa :: bool
  published_aoa :: "(double \<times> AoaCheckDiagnostics) list"
  lastDiagPublishTime :: double

subsection \<open>nestedForLoopComparison\<close>

text \<open>The inner loop: \<open>compareIt\<close> runs over the map from its last entry to its first
  and carries \<open>failCount\<close> and \<open>totalCount\<close>.\<close>

fun compareLoop ::
  "double \<Rightarrow> nat \<times> double \<Rightarrow> (nat \<times> double) list \<Rightarrow> nat \<times> nat \<Rightarrow> nat \<times> nat" where
  "compareLoop thresh sd [] (failCount, totalCount) = (failCount, totalCount)"
| "compareLoop thresh sd (cmp # rest) (failCount, totalCount) =
     (if fst sd \<noteq> fst cmp
      then (let singleDiffDiff = dabs (dsub (snd sd) (snd cmp))
            in compareLoop thresh sd rest
                 (if dlt singleDiffDiff thresh then failCount + 1 else failCount,
                  totalCount + 1))
      else compareLoop thresh sd rest (failCount, totalCount))"

text \<open>The outer loop: \<open>sdIt\<close> runs over the map from its first entry to its last.\<close>

fun sdLoop ::
  "AngleOfArrivalCheck \<Rightarrow> SingleDiffMap \<Rightarrow> (nat \<times> double) list
     \<Rightarrow> PrnAssuranceEachNode \<Rightarrow> PrnAssuranceEachNode" where
  "sdLoop s diffMap [] prnAssuranceEachNode = prnAssuranceEachNode"
| "sdLoop s diffMap (sd # rest) prnAssuranceEachNode =
     (let (failCount, totalCount) =
            compareLoop (singleDiffCompareThresh s) sd (rev diffMap) (0, 0);
          failPercent = ddiv (double_of_nat failCount) (double_of_nat totalCount)
      in sdLoop s diffMap rest
           (if totalCount < unat (prnCountThresh s - 1)
            then push_back_at (fst sd) Unavailable prnAssuranceEachNode
            else if dgt failPercent (singleDiffCompareFailureLimit s)
            then push_back_at (fst sd) Unassured prnAssuranceEachNode
            else push_back_at (fst sd) Assured prnAssuranceEachNode))"

definition nestedForLoopComparison ::
  "AngleOfArrivalCheck \<Rightarrow> SingleDiffMap \<Rightarrow> PrnAssuranceEachNode \<Rightarrow> PrnAssuranceEachNode" where
  "nestedForLoopComparison s diffMap prnAssuranceEachNode =
     sdLoop s diffMap diffMap prnAssuranceEachNode"

subsection \<open>setPrnAssuranceLevels\<close>

text \<open>\<open>std::max_element\<close>: the first of the largest elements; on an empty range it
  returns the end iterator, which the caller must not dereference (\<open>None\<close>).\<close>

fun max_element_from :: "('a \<Rightarrow> 'a \<Rightarrow> bool) \<Rightarrow> 'a \<Rightarrow> 'a list \<Rightarrow> 'a" where
  "max_element_from lt largest [] = largest"
| "max_element_from lt largest (x # xs) =
     max_element_from lt (if lt largest x then x else largest) xs"

fun max_element :: "('a \<Rightarrow> 'a \<Rightarrow> bool) \<Rightarrow> 'a list \<Rightarrow> 'a option" where
  "max_element lt [] = None"
| "max_element lt (x # xs) = Some (max_element_from lt x xs)"

fun setPrnLoop ::
  "PrnAssuranceEachNode \<Rightarrow> (nat \<times> AssuranceLevel) list \<Rightarrow> (nat \<times> AssuranceLevel) list option" where
  "setPrnLoop [] levels = Some levels"
| "setPrnLoop ((prn, votes) # rest) levels =
     (case max_element level_less votes of
        None \<Rightarrow> None
      | Some maxLevel \<Rightarrow> setPrnLoop rest (map_assign prn maxLevel levels))"

definition setPrnAssuranceLevels ::
  "PrnAssuranceEachNode \<Rightarrow> AngleOfArrivalCheck \<Rightarrow> AngleOfArrivalCheck option" where
  "setPrnAssuranceLevels prnAssuranceEachNode s =
     (case setPrnLoop prnAssuranceEachNode (prnAssuranceLevels s) of
        None \<Rightarrow> None
      | Some levels \<Rightarrow> Some (s\<lparr>prnAssuranceLevels := levels\<rparr>))"

subsection \<open>calculateAssuranceLevel\<close>

text \<open>The counting loop; the counters are \<open>totalCount\<close>, \<open>assuredCount\<close>,
  \<open>unavailableCount\<close> and \<open>suspectCount\<close>.\<close>

fun countLoop ::
  "(nat \<times> AssuranceLevel) list \<Rightarrow> nat \<times> nat \<times> nat \<times> nat \<Rightarrow> nat \<times> nat \<times> nat \<times> nat" where
  "countLoop [] counts = counts"
| "countLoop ((prn, level) # rest) (totalCount, assuredCount, unavailableCount, suspectCount) =
     countLoop rest
       (if level = Assured
        then (totalCount + 1, assuredCount + 1, unavailableCount, suspectCount)
        else if level = Unavailable
        then (totalCount + 1, assuredCount, unavailableCount + 1, suspectCount)
        else (totalCount + 1, assuredCount, unavailableCount, suspectCount + 1))"

definition calculateAssuranceLevel ::
  "double \<Rightarrow> AngleOfArrivalCheck \<Rightarrow> AngleOfArrivalCheck" where
  "calculateAssuranceLevel checkTime s =
     (let (totalCount, assuredCount, unavailableCount, suspectCount) =
            countLoop (prnAssuranceLevels s) (0, 0, 0, 0);
          assuredPercent = ddiv (double_of_nat assuredCount) (double_of_nat totalCount);
          unavailablePercent = ddiv (double_of_nat unavailableCount) (double_of_nat totalCount);
          suspectPercent = ddiv (double_of_nat suspectCount) (double_of_nat totalCount);
          s1 = (if totalCount < unat (prnCountThresh s - 1)
                then changeAssuranceLevel checkTime Unavailable s
                else if dge suspectPercent (assuranceUnassuredThresh s)
                then changeAssuranceLevel checkTime Unassured s
                else if dge suspectPercent (assuranceInconsistentThresh s)
                then changeAssuranceLevel checkTime Inconsistent s
                else if dgt assuredPercent (assuranceAssuredThresh s)
                then changeAssuranceLevel checkTime Assured s
                else changeAssuranceLevel checkTime Unavailable s)
      in if publishDiagnostics_aoa s1
         then s1\<lparr>published_aoa := published_aoa s1 @
                    [(checkTime,
                      \<lparr>singleDiffThresh = singleDiffCompareThresh s1,
                       unavailablePrnPercent = unavailablePercent,
                       suspectPrnPercent = suspectPercent,
                       assuredPrnPercent = assuredPercent,
                       inconsistentThresh = assuranceInconsistentThresh s1,
                       unassuredThresh = assuranceUnassuredThresh s1,
                       assuredThresh = assuranceAssuredThresh s1\<rparr>)],
                lastDiagPublishTime := checkTime\<rparr>
         else s1)"

subsection \<open>checkAngleOfArrival\<close>

definition carrierPhase_error :: string where
  "carrierPhase_error =
     ''AngleOfArrivalCheck:checkAngleOfArrival: 'UseCarrierPhase' '' @
     ''data method not yet implemented''"

definition useBoth_error :: string where
  "useBoth_error =
     ''AngleOfArrivalCheck:checkAngleOfArrival: 'UseBoth' '' @
     ''data method not yet implemented''"

text \<open>The loop over the local observables for one remote node. It carries the
  single-difference map of this node, the votes of the cycle and the check (for its
  error log).\<close>

fun localLoop ::
  "MeasuredRange \<Rightarrow> (nat \<times> GNSSObservable) list \<Rightarrow> (nat \<times> GNSSObservable) list
     \<Rightarrow> SingleDiffMap \<times> PrnAssuranceEachNode \<times> AngleOfArrivalCheck
     \<Rightarrow> SingleDiffMap \<times> PrnAssuranceEachNode \<times> AngleOfArrivalCheck" where
  "localLoop rng remoteObservables [] acc = acc"
| "localLoop rng remoteObservables ((prn, localObservable) # rest)
       (singleDiffMap, prnAssuranceEachNode, s) =
     (let votes1 = (if pseudorangeValid localObservable
                    then push_back_at prn (assurance localObservable) prnAssuranceEachNode
                    else prnAssuranceEachNode)
      in localLoop rng remoteObservables rest
           (if \<not> rangeValid rng \<or> (dge (range_value rng) (rangeThreshold s) \<and> rangeValid rng)
            then (case aoaCheckData s of
                    UsePseudorange \<Rightarrow>
                      (case map_find prn remoteObservables of
                         None \<Rightarrow> (singleDiffMap, votes1, s)
                       | Some remoteMatch \<Rightarrow>
                           if pseudorangeValid localObservable \<and> pseudorangeValid remoteMatch
                           then (map_assign prn
                                   (dsub (pseudorange localObservable) (pseudorange remoteMatch))
                                   singleDiffMap,
                                 votes1, s)
                           else (singleDiffMap, votes1, s))
                  | UseCarrierPhase \<Rightarrow> (singleDiffMap, votes1, logMsg carrierPhase_error Error s)
                  | UseBoth \<Rightarrow> (singleDiffMap, votes1, logMsg useBoth_error Error s))
            else (singleDiffMap, votes1, s)))"

text \<open>A remote node is skipped when its observation snapshot is empty or it reports the
  local device id.\<close>

definition skipped :: "GNSSObservables \<Rightarrow> RemoteEntry \<Rightarrow> bool" where
  "skipped localObs re =
     (length (observables (remoteObs re)) < 1 \<or> deviceId (remoteObs re) = deviceId localObs)"

text \<open>The rest of the loop body, for a node that is not skipped: the local loop, the
  publication of the single differences, and the nested comparison.\<close>

definition processRemote ::
  "double \<Rightarrow> GNSSObservables \<Rightarrow> string \<times> RemoteEntry \<Rightarrow> PrnAssuranceEachNode
     \<Rightarrow> AngleOfArrivalCheck \<Rightarrow> PrnAssuranceEachNode \<times> AngleOfArrivalCheck" where
  "processRemote checkTime localObs remote prnAssuranceEachNode s =
     (let (singleDiffMap, votes1, s1) =
            localLoop (remoteRange (snd remote)) (observables (remoteObs (snd remote)))
              (observables localObs) ([], prnAssuranceEachNode, s);
          s2 = (if publishSingleDiffData s1
                then s1\<lparr>publishedSingleDiffData :=
                           publishedSingleDiffData s1 @ [(checkTime, fst remote, singleDiffMap)],
                        lastDiffPublishTime := checkTime\<rparr>
                else s1)
      in (nestedForLoopComparison s2 singleDiffMap votes1, s2))"

text \<open>The loop over the remote nodes. The first component of the result says whether
  the function returned from inside the loop; the votes are those collected up to that
  point.\<close>

fun remoteLoop ::
  "double \<Rightarrow> GNSSObservables \<Rightarrow> (string \<times> RemoteEntry) list \<Rightarrow> PrnAssuranceEachNode
     \<Rightarrow> AngleOfArrivalCheck \<Rightarrow> bool \<times> PrnAssuranceEachNode \<times> AngleOfArrivalCheck" where
  "remoteLoop checkTime localObs [] prnAssuranceEachNode s = (False, prnAssuranceEachNode, s)"
| "remoteLoop checkTime localObs (remote # rest) prnAssuranceEachNode s =
     (if length (observables (remoteObs (snd remote))) < 1
      then (if rest = [] then (True, prnAssuranceEachNode, s)
            else remoteLoop checkTime localObs rest prnAssuranceEachNode s)
      else if deviceId (remoteObs (snd remote)) = deviceId localObs
      then (if rest = [] then (True, prnAssuranceEachNode, s)
            else remoteLoop checkTime localObs rest prnAssuranceEachNode s)
      else (case processRemote checkTime localObs remote prnAssuranceEachNode s of
              (votes, s') \<Rightarrow> remoteLoop checkTime localObs rest votes s'))"

text \<open>One evaluation cycle. \<open>localEntry\<close> is \<open>None\<close> when the local repository entry
  holds no observables. The result is \<open>None\<close> only if \<open>setPrnAssuranceLevels\<close> met an
  empty vote vector.\<close>

definition checkAngleOfArrival ::
  "double \<Rightarrow> GNSSObservables option \<Rightarrow> (string \<times> RemoteEntry) list
     \<Rightarrow> AngleOfArrivalCheck \<Rightarrow> AngleOfArrivalCheck option" where
  "checkAngleOfArrival checkTime localEntry remoteEntries s =
     (let timeSinceLastUpdate = dsub checkTime (lastAssuranceUpdate s);
          s1 = (if dgt timeSinceLastUpdate (assuranceLevelPeriod s)
                then s\<lparr>prnAssuranceLevels := []\<rparr> else s)
      in case localEntry of
           None \<Rightarrow> Some s1
         | Some localObs \<Rightarrow>
             if length (observables localObs) < unat (prnCountThresh s1) then Some s1
             else if remoteEntries = [] then Some s1
             else (case remoteLoop checkTime localObs remoteEntries [] s1 of
                     (True, votes, s2) \<Rightarrow> Some s2
                   | (False, votes, s2) \<Rightarrow>
                       (case setPrnAssuranceLevels votes s2 of
                          None \<Rightarrow> None
                        | Some s3 \<Rightarrow> Some (calculateAssuranceLevel checkTime s3))))"

subsection \<open>The classification in the words of the specification\<close>

text \<open>Section 4.2a: for a PRN \<open>p\<close> of a single-difference map of size \<open>n\<close>, a fail is
  another PRN \<open>q\<close> of the map with \<open>|diff(p) - diff(q)|\<close> below the compare threshold;
  \<open>failPercent = failCount / (n - 1)\<close>; the vote is Unavailable when
  \<open>n - 1 < minimumPRNCount - 1\<close>, Unassured when \<open>failPercent\<close> exceeds the failure
  limit, and Assured otherwise.\<close>

definition failCount_of :: "double \<Rightarrow> SingleDiffMap \<Rightarrow> nat \<times> double \<Rightarrow> nat" where
  "failCount_of thresh diffMap p =
     length (filter (\<lambda>q. fst q \<noteq> fst p \<and> dlt (dabs (dsub (snd p) (snd q))) thresh) diffMap)"

definition failPercent_of :: "double \<Rightarrow> SingleDiffMap \<Rightarrow> nat \<times> double \<Rightarrow> double" where
  "failPercent_of thresh diffMap p =
     ddiv (double_of_nat (failCount_of thresh diffMap p)) (double_of_nat (length diffMap - 1))"

definition prnVote :: "AngleOfArrivalCheck \<Rightarrow> SingleDiffMap \<Rightarrow> nat \<times> double \<Rightarrow> AssuranceLevel" where
  "prnVote s diffMap p =
     (if int (length diffMap) - 1 < uint (prnCountThresh s) - 1 then Unavailable
      else if dgt (failPercent_of (singleDiffCompareThresh s) diffMap p)
                  (singleDiffCompareFailureLimit s)
      then Unassured
      else Assured)"

text \<open>Section 4.2, step 5: the counts over the stored per-PRN map, the three fractions,
  and the decision, first match first.\<close>

definition assuredCount_of :: "(nat \<times> AssuranceLevel) list \<Rightarrow> nat" where
  "assuredCount_of levels = length (filter (\<lambda>e. snd e = Assured) levels)"

definition unavailableCount_of :: "(nat \<times> AssuranceLevel) list \<Rightarrow> nat" where
  "unavailableCount_of levels = length (filter (\<lambda>e. snd e = Unavailable) levels)"

definition suspectCount_of :: "(nat \<times> AssuranceLevel) list \<Rightarrow> nat" where
  "suspectCount_of levels =
     length (filter (\<lambda>e. snd e \<noteq> Assured \<and> snd e \<noteq> Unavailable) levels)"

definition fraction :: "nat \<Rightarrow> nat \<Rightarrow> double" where
  "fraction part whole = ddiv (double_of_nat part) (double_of_nat whole)"

definition aggregateLevel :: "AngleOfArrivalCheck \<Rightarrow> AssuranceLevel" where
  "aggregateLevel s =
     (let levels = prnAssuranceLevels s; totalPrns = length levels
      in if int totalPrns < uint (prnCountThresh s) - 1 then Unavailable
         else if dge (fraction (suspectCount_of levels) totalPrns) (assuranceUnassuredThresh s)
         then Unassured
         else if dge (fraction (suspectCount_of levels) totalPrns) (assuranceInconsistentThresh s)
         then Inconsistent
         else if dgt (fraction (assuredCount_of levels) totalPrns) (assuranceAssuredThresh s)
         then Assured
         else Unavailable)"

subsection \<open>Sample data\<close>

definition aoa_sample :: "64 word \<Rightarrow> (nat \<times> AssuranceLevel) list \<Rightarrow> AngleOfArrivalCheck" where
  "aoa_sample minPrns levels =
     \<lparr>assuranceLevel = Unavailable, lastAssuranceUpdate = Num 0,
      lastKnownGoodSet = False, lastKnownGoodPosition = point 0 0,
      lastKnownGoodPositionTime = Num 0, logged = [],
      assuranceLevelPeriod = Num 2, prnCountThresh = minPrns, rangeThreshold = Num 0,
      aoaCheckData = UsePseudorange, singleDiffCompareThresh = Num 5,
      singleDiffCompareFailureLimit = Num (7 / 10),
      assuranceUnassuredThresh = Num (1 / 2), assuranceInconsistentThresh = Num (1 / 4),
      assuranceAssuredThresh = Num (1 / 2), prnAssuranceLevels = levels,
      publishSingleDiffData = False, publishedSingleDiffData = [],
      lastDiffPublishTime = Num 0, publishDiagnostics_aoa = True, published_aoa = [],
      lastDiagPublishTime = Num 0\<rparr>"

definition obs :: "real \<Rightarrow> AssuranceLevel \<Rightarrow> GNSSObservable" where
  "obs pr lvl = \<lparr>pseudorange = Num pr, pseudorangeValid = True, assurance = lvl\<rparr>"

definition node :: "string \<Rightarrow> (nat \<times> GNSSObservable) list \<Rightarrow> RemoteEntry" where
  "node name observed =
     \<lparr>remoteObs = \<lparr>deviceId = name, observables = observed\<rparr>,
      remoteRange = \<lparr>rangeValid = False, range_value = Num 0\<rparr>\<rparr>"

text \<open>A local snapshot of two PRNs with valid pseudoranges, and a remote snapshot of
  the same PRNs whose single differences, 10 and 50, are far apart.\<close>

definition local_sample :: GNSSObservables where
  "local_sample =
     \<lparr>deviceId = ''rover'', observables = [(3, obs 100 Assured), (7, obs 200 Assured)]\<rparr>"

definition remote_sample :: "string \<Rightarrow> RemoteEntry" where
  "remote_sample name = node name [(3, obs 90 Assured), (7, obs 150 Assured)]"

section \<open>Properties of PositionJumpCheck\<close>

lemma dlt_irrefl: "\<not> dlt a a"
  by (cases a) simp_all

lemma dlt_asym: "dlt a b \<Longrightarrow> \<not> dlt b a"
  by (cases a; cases b) simp_all

lemma dlt_not_NaN: "dlt a b \<Longrightarrow> a \<noteq> NaN \<and> b \<noteq> NaN"
  by (cases a; cases b) simp_all

lemma dmax_not_below: "\<not> dlt (dmax a b) a"
  by (simp add: dmax_def dlt_irrefl dlt_asym)

lemma dmax_dge: "a \<noteq> NaN \<Longrightarrow> dge (dmax a b) a"
  by (auto simp: dmax_def dge_def dle_def dlt_irrefl dest: dlt_asym dlt_not_NaN)

lemma dge_trans: "dge a b \<Longrightarrow> dge b c \<Longrightarrow> dge a c"
  by (cases a; cases b; cases c) (auto simp: dge_def dle_def)

text \<open>
  \<^bold>\<open>C9.\<close> The distance-traveled update \<open>updateBound()\<close> called while
  \<open>useDistTraveled_\<close> is false, and the time-propagation update
  \<open>updateBound(updateTime)\<close> called while it is true, append one error to the log and
  change nothing else: the state afterwards is the state before with that one log
  entry added, so the bound and every other member keep their values.
\<close>

theorem updateBound_wrong_mode_only_logs:
  "(\<not> useDistTraveled s \<longrightarrow>
      updateBound s = s\<lparr>logged := logged s @ [(Error, updateBound_error)]\<rparr> \<and>
      positionJumpBound (updateBound s) = positionJumpBound s) \<and>
   (useDistTraveled s \<longrightarrow>
      updateBound_time t s = s\<lparr>logged := logged s @ [(Error, updateBound_time_error)]\<rparr> \<and>
      positionJumpBound (updateBound_time t s) = positionJumpBound s)"
  by (simp add: updateBound_def updateBound_time_def logMsg_def)

theorem updateBound_wrong_mode_only_logs_witness:
  "\<not> useDistTraveled (pj_sample False False (Num 15) (fix_at 0 (point 0 0) 1)) \<and>
   logged (updateBound (pj_sample False False (Num 15) (fix_at 0 (point 0 0) 1)))
     = [(Error, updateBound_error)] \<and>
   positionJumpBound (updateBound (pj_sample False False (Num 15) (fix_at 0 (point 0 0) 1)))
     = Num 15 \<and>
   useDistTraveled (pj_sample True False (Num 15) (fix_at 0 (point 0 0) 1)) \<and>
   logged (updateBound_time (Num 7) (pj_sample True False (Num 15) (fix_at 0 (point 0 0) 1)))
     = [(Error, updateBound_time_error)] \<and>
   positionJumpBound
     (updateBound_time (Num 7) (pj_sample True False (Num 15) (fix_at 0 (point 0 0) 1)))
     = Num 15"
  using updateBound_wrong_mode_only_logs
          [of "pj_sample False False (Num 15) (fix_at 0 (point 0 0) 1)" "Num 7"]
        updateBound_wrong_mode_only_logs
          [of "pj_sample True False (Num 15) (fix_at 0 (point 0 0) 1)" "Num 7"]
  by (simp add: pj_sample_def)

text \<open>
  \<^bold>\<open>C8.\<close> In platform and distance-traveled mode (\<open>useEstimatedPv_\<close> false), when no
  last-known-good position has been set, or, in distance-traveled mode, no distance
  data has arrived, \<open>runCheck\<close> returns false, sets the level to Unavailable, hands
  the sink (if one is set) exactly one diagnostics record whose bound and distance are
  NaN, and leaves the stored distance to the last good position as it was.
\<close>

theorem runCheck_without_reference_unavailable:
  assumes "\<not> useEstimatedPv s"
    and "\<not> lastKnownGoodSet s \<or> (useDistTraveled s \<and> \<not> distanceTraveledReceived s)"
  shows "fst (runCheck calcDist g2n s) = False \<and>
         assuranceLevel (snd (runCheck calcDist g2n s)) = Unavailable \<and>
         published (snd (runCheck calcDist g2n s)) =
           (if publishDiagnostics s
            then published s @ [(updateTime_of (lastReceiverPv s), \<lparr>bound = NaN, distance = NaN\<rparr>)]
            else published s) \<and>
         distanceToLastGoodPos (snd (runCheck calcDist g2n s)) = distanceToLastGoodPos s"
  using assms
  by (auto simp: runCheck_def runCheck_unavailable_def updateBound_time_def
      changeAssuranceLevel_def Let_def)

theorem runCheck_without_reference_unavailable_witness:
  "\<not> useEstimatedPv (pj_sample False False (Num 15) (fix_at 100 (point 3 4) 1)) \<and>
   \<not> lastKnownGoodSet (pj_sample False False (Num 15) (fix_at 100 (point 3 4) 1)) \<and>
   fst (runCheck flat_distance flat_ned
          (pj_sample False False (Num 15) (fix_at 100 (point 3 4) 1))) = False \<and>
   assuranceLevel (snd (runCheck flat_distance flat_ned
          (pj_sample False False (Num 15) (fix_at 100 (point 3 4) 1)))) = Unavailable \<and>
   published (snd (runCheck flat_distance flat_ned
          (pj_sample False False (Num 15) (fix_at 100 (point 3 4) 1)))) =
     [(Num 100, \<lparr>bound = NaN, distance = NaN\<rparr>)] \<and>
   useDistTraveled ((pj_sample True False (Num 15) (fix_at 100 (point 3 4) 1))
                      \<lparr>lastKnownGoodSet := True, assuranceLevel := Assured\<rparr>) \<and>
   \<not> distanceTraveledReceived ((pj_sample True False (Num 15) (fix_at 100 (point 3 4) 1))
                      \<lparr>lastKnownGoodSet := True, assuranceLevel := Assured\<rparr>) \<and>
   fst (runCheck flat_distance flat_ned
          ((pj_sample True False (Num 15) (fix_at 100 (point 3 4) 1))
             \<lparr>lastKnownGoodSet := True, assuranceLevel := Assured\<rparr>)) = False \<and>
   assuranceLevel (snd (runCheck flat_distance flat_ned
          ((pj_sample True False (Num 15) (fix_at 100 (point 3 4) 1))
             \<lparr>lastKnownGoodSet := True, assuranceLevel := Assured\<rparr>))) = Unavailable"
proof -
  let ?s = "pj_sample False False (Num 15) (fix_at 100 (point 3 4) 1)"
  let ?d = "(pj_sample True False (Num 15) (fix_at 100 (point 3 4) 1))
              \<lparr>lastKnownGoodSet := True, assuranceLevel := Assured\<rparr>"
  have h1: "\<not> useEstimatedPv ?s"
    by (simp add: pj_sample_def)
  have h2: "\<not> lastKnownGoodSet ?s \<or> (useDistTraveled ?s \<and> \<not> distanceTraveledReceived ?s)"
    by (simp add: pj_sample_def)
  have t: "updateTime_of (lastReceiverPv ?s) = Num 100"
    by (simp add: pj_sample_def fix_at_def updateTime_of_def double_of_int_def)
  have p: "publishDiagnostics ?s" "published ?s = []" "\<not> lastKnownGoodSet ?s"
    by (simp_all add: pj_sample_def)
  have d1: "\<not> useEstimatedPv ?d"
    by (simp add: pj_sample_def)
  have d2: "\<not> lastKnownGoodSet ?d \<or> (useDistTraveled ?d \<and> \<not> distanceTraveledReceived ?d)"
    by (simp add: pj_sample_def)
  have q: "useDistTraveled ?d" "\<not> distanceTraveledReceived ?d"
    by (simp_all add: pj_sample_def)
  from runCheck_without_reference_unavailable [OF h1 h2, of flat_distance flat_ned]
       runCheck_without_reference_unavailable [OF d1 d2, of flat_distance flat_ned]
  show ?thesis
    using h1 t p q by simp
qed




subsection \<open>The bound and the minimum bound\<close>

lemma updateBound_bound:
  "positionJumpBound (updateBound s) =
     (if useDistTraveled s then dmax (minimumBound s) (distanceTraveled s)
      else positionJumpBound s)"
  "minimumBound (updateBound s) = minimumBound s"
  by (simp_all add: updateBound_def logMsg_def)

lemma updateBound_time_bound:
  "positionJumpBound (updateBound_time t s) =
     (if useDistTraveled s then positionJumpBound s
      else dmax (minimumBound s)
             (dmul (maximumVelocity s) (dsub t (lastKnownGoodPositionTime s))))"
  "minimumBound (updateBound_time t s) = minimumBound s"
  by (simp_all add: updateBound_time_def logMsg_def Let_def)

lemma setLastGoodPosition_bound:
  "positionJumpBound (setLastGoodPosition t p s) =
     (if useDistTraveled s then minimumBound s else positionJumpBound s)"
  "minimumBound (setLastGoodPosition t p s) = minimumBound s"
  by (simp_all add: setLastGoodPosition_def base_setLastGoodPosition_def Let_def)

lemma runCheck_bound:
  "positionJumpBound (snd (runCheck calcDist g2n s)) =
     (if \<not> useDistTraveled s \<and> \<not> useEstimatedPv s
      then dmax (minimumBound s)
             (dmul (maximumVelocity s)
                (dsub (updateTime_of (lastReceiverPv s)) (lastKnownGoodPositionTime s)))
      else if useEstimatedPv s \<and> currentEstPositionSet s
      then dmax (minimumBound s)
             (dmul (posStdDevMultiplier s)
                (dsqrt (dadd (currentEstPosCovariance s 0 0) (currentEstPosCovariance s 1 1))))
      else positionJumpBound s)"
  "minimumBound (snd (runCheck calcDist g2n s)) = minimumBound s"
  by (auto simp: runCheck_def runCheck_lastGood_def runCheck_estimated_def
      runCheck_unavailable_def updateBound_time_def changeAssuranceLevel_def Let_def
      split: prod.splits)

text \<open>
  \<^bold>\<open>C6\<close>, as amended. Let the configured minimum bound be a number (not NaN). Every
  write of the bound leaves it at least the minimum bound: \<open>updateBound()\<close> in
  distance-traveled mode, \<open>updateBound(updateTime)\<close> otherwise, the reset in
  \<open>setLastGoodPosition\<close> in distance-traveled mode, and \<open>runCheck\<close> in platform mode
  and in estimated-PV mode with a reference captured -- whatever the elapsed time, the
  accumulated distance and the covariance are. A call that does not write the bound
  keeps the property. The bound is then non-negative whenever the minimum bound is.
\<close>

theorem bound_at_least_minimum_after_update:
  assumes "minimumBound s \<noteq> NaN"
  shows "(useDistTraveled s \<longrightarrow>
            bound_ok (updateBound s) \<and> bound_ok (setLastGoodPosition t p s)) \<and>
         (\<not> useDistTraveled s \<longrightarrow> bound_ok (updateBound_time t s)) \<and>
         ((\<not> useDistTraveled s \<and> \<not> useEstimatedPv s) \<or>
          (useEstimatedPv s \<and> currentEstPositionSet s) \<longrightarrow>
            bound_ok (snd (runCheck calcDist g2n s))) \<and>
         (bound_ok s \<longrightarrow>
            bound_ok (updateBound s) \<and> bound_ok (updateBound_time t s) \<and>
            bound_ok (setLastGoodPosition t p s) \<and>
            bound_ok (snd (runCheck calcDist g2n s))) \<and>
         (dge (minimumBound s) (Num 0) \<longrightarrow>
            (bound_ok (updateBound s) \<longrightarrow> bound_nonneg (updateBound s)) \<and>
            (bound_ok (updateBound_time t s) \<longrightarrow> bound_nonneg (updateBound_time t s)) \<and>
            (bound_ok (setLastGoodPosition t p s) \<longrightarrow>
               bound_nonneg (setLastGoodPosition t p s)) \<and>
            (bound_ok (snd (runCheck calcDist g2n s)) \<longrightarrow>
               bound_nonneg (snd (runCheck calcDist g2n s))))"
proof -
  have m: "dge (minimumBound s) (minimumBound s)"
    using assms by (simp add: dge_def dle_def dlt_irrefl)
  have w: "dge (dmax (minimumBound s) x) (minimumBound s)" for x
    using assms by (rule dmax_dge)
  have n: "dge (minimumBound s) (Num 0) \<Longrightarrow> dge b (minimumBound s) \<Longrightarrow> dge b (Num 0)" for b
    by (rule dge_trans)
  show ?thesis
    unfolding bound_ok_def bound_nonneg_def
      updateBound_bound updateBound_time_bound setLastGoodPosition_bound runCheck_bound
    using m w n by auto
qed

text \<open>Minimum bound 15. In distance-traveled mode with nothing accumulated the update
  and the reset give 15; in platform mode an update time 7 seconds before the last good
  fix gives 15; in estimated-PV mode (minimum bound 40, zero covariance) \<open>runCheck\<close>
  gives 40.\<close>

theorem bound_at_least_minimum_after_update_witness:
  "minimumBound (pj_sample True False (Num 15) (fix_at 100 (point 3 4) 1)) \<noteq> NaN \<and>
   dge (minimumBound (pj_sample True False (Num 15) (fix_at 100 (point 3 4) 1))) (Num 0) \<and>
   useDistTraveled (pj_sample True False (Num 15) (fix_at 100 (point 3 4) 1)) \<and>
   bound_ok (pj_sample True False (Num 15) (fix_at 100 (point 3 4) 1)) \<and>
   bound_ok (updateBound (pj_sample True False (Num 15) (fix_at 100 (point 3 4) 1))) \<and>
   bound_nonneg (updateBound (pj_sample True False (Num 15) (fix_at 100 (point 3 4) 1))) \<and>
   bound_ok (setLastGoodPosition (Num 100) (point 3 4)
               (pj_sample True False (Num 15) (fix_at 100 (point 3 4) 1))) \<and>
   \<not> useDistTraveled (pj_sample False False (Num 15) (fix_at 100 (point 3 4) 1)) \<and>
   \<not> useEstimatedPv (pj_sample False False (Num 15) (fix_at 100 (point 3 4) 1)) \<and>
   bound_ok (updateBound_time (Num (- 7))
               (pj_sample False False (Num 15) (fix_at 100 (point 3 4) 1))) \<and>
   bound_nonneg (updateBound_time (Num (- 7))
               (pj_sample False False (Num 15) (fix_at 100 (point 3 4) 1))) \<and>
   bound_ok (snd (runCheck flat_distance flat_ned
               (pj_sample False False (Num 15) (fix_at 100 (point 3 4) 1)))) \<and>
   useEstimatedPv ((pj_sample False True (Num 40) (fix_at 100 (point 50 0) 100))
                     \<lparr>currentEstPositionSet := True\<rparr>) \<and>
   currentEstPositionSet ((pj_sample False True (Num 40) (fix_at 100 (point 50 0) 100))
                     \<lparr>currentEstPositionSet := True\<rparr>) \<and>
   bound_ok (snd (runCheck flat_distance flat_ned
               ((pj_sample False True (Num 40) (fix_at 100 (point 50 0) 100))
                     \<lparr>currentEstPositionSet := True\<rparr>))) \<and>
   bound_nonneg (snd (runCheck flat_distance flat_ned
               ((pj_sample False True (Num 40) (fix_at 100 (point 50 0) 100))
                     \<lparr>currentEstPositionSet := True\<rparr>)))"
proof -
  let ?d = "pj_sample True False (Num 15) (fix_at 100 (point 3 4) 1)"
  let ?p = "pj_sample False False (Num 15) (fix_at 100 (point 3 4) 1)"
  let ?e = "(pj_sample False True (Num 40) (fix_at 100 (point 50 0) 100))
              \<lparr>currentEstPositionSet := True\<rparr>"
  have hd: "minimumBound ?d \<noteq> NaN" "dge (minimumBound ?d) (Num 0)" "useDistTraveled ?d"
      "bound_ok ?d"
    by (simp_all add: pj_sample_def dge_def dle_def bound_ok_def)
  have hp: "minimumBound ?p \<noteq> NaN" "dge (minimumBound ?p) (Num 0)" "\<not> useDistTraveled ?p"
      "\<not> useEstimatedPv ?p"
    by (simp_all add: pj_sample_def dge_def dle_def)
  have he: "minimumBound ?e \<noteq> NaN" "dge (minimumBound ?e) (Num 0)" "useEstimatedPv ?e"
      "currentEstPositionSet ?e"
    by (simp_all add: pj_sample_def dge_def dle_def)
  note td = bound_at_least_minimum_after_update
      [OF hd(1), of "Num 100" "point 3 4" flat_distance flat_ned]
  note tp = bound_at_least_minimum_after_update
      [OF hp(1), of "Num (- 7)" "point 3 4" flat_distance flat_ned]
  note te = bound_at_least_minimum_after_update
      [OF he(1), of "Num 100" "point 3 4" flat_distance flat_ned]
  from td hd have "bound_ok (updateBound ?d)" "bound_nonneg (updateBound ?d)"
      "bound_ok (setLastGoodPosition (Num 100) (point 3 4) ?d)"
    by blast+
  moreover from tp hp have "bound_ok (updateBound_time (Num (- 7)) ?p)"
      "bound_nonneg (updateBound_time (Num (- 7)) ?p)"
      "bound_ok (snd (runCheck flat_distance flat_ned ?p))"
    by blast+
  moreover from te he have "bound_ok (snd (runCheck flat_distance flat_ned ?e))"
      "bound_nonneg (snd (runCheck flat_distance flat_ned ?e))"
    by blast+
  ultimately show ?thesis
    using hd hp he by blast
qed

text \<open>As the specification states it, the property fails for a negative minimum bound: with \<open>minimumBound = -5\<close>
  the reset in distance-traveled mode sets the bound to \<open>-5\<close>, and with
  \<open>minimumBound = -10\<close>, maximum velocity 5 and an update time one second before the
  last good fix, the platform-mode update sets it to \<open>-5\<close>. With a NaN minimum bound
  \<open>std::max\<close> returns its first argument, the bound is NaN and compares with nothing.\<close>

theorem bound_never_negative_counterexample:
  "positionJumpBound (setLastGoodPosition (Num 100) (point 3 4)
      (pj_sample True False (Num (- 5)) (fix_at 100 (point 3 4) 1))) = Num (- 5) \<and>
   \<not> bound_nonneg (setLastGoodPosition (Num 100) (point 3 4)
      (pj_sample True False (Num (- 5)) (fix_at 100 (point 3 4) 1))) \<and>
   positionJumpBound (updateBound_time (Num (- 1))
      (pj_sample False False (Num (- 10)) (fix_at 100 (point 3 4) 1))) = Num (- 5) \<and>
   \<not> bound_nonneg (updateBound_time (Num (- 1))
      (pj_sample False False (Num (- 10)) (fix_at 100 (point 3 4) 1))) \<and>
   positionJumpBound (updateBound (pj_sample True False NaN (fix_at 100 (point 3 4) 1))) = NaN \<and>
   \<not> bound_ok (updateBound (pj_sample True False NaN (fix_at 100 (point 3 4) 1)))"
  by (simp add: setLastGoodPosition_def base_setLastGoodPosition_def updateBound_time_def
      updateBound_def pj_sample_def bound_nonneg_def bound_ok_def dge_def dle_def dmax_def
      dsub_def Let_def)

section \<open>Properties of AngleOfArrivalCheck\<close>

subsection \<open>Ordered maps\<close>

lemma map_find_map_of: "std_map m \<Longrightarrow> map_find k m = map_of m k"
proof (induction m)
  case Nil
  then show ?case by simp
next
  case (Cons e m)
  obtain k' v where e: "e = (k', v)" by (cases e)
  from Cons.prems have above: "\<forall>j \<in> set (map fst m). k' < j" and rest: "std_map m"
    by (simp_all add: std_map_def e)
  show ?case
  proof (cases "k < k'")
    case True
    with above have "k \<notin> set (map fst m)" by auto
    then have "map_of m k = None" by (simp add: map_of_eq_None_iff)
    with True show ?thesis by (simp add: e)
  next
    case False
    with Cons.IH [OF rest] show ?thesis by (simp add: e)
  qed
qed

lemma std_map_distinct: "std_map m \<Longrightarrow> distinct (map fst m)"
  by (simp add: std_map_def strict_sorted_iff)

lemma map_find_map_assign:
  "map_find j (map_assign k v m) = (if j = k then Some v else map_find j m)"
  by (induction m) auto

lemma map_find_push_back_at:
  "map_find j (push_back_at k v m) = (if j = k then Some (votes_at k m @ [v]) else map_find j m)"
  by (induction m) (auto simp: votes_at_def)

lemma votes_at_push_back_at:
  "votes_at j (push_back_at k v m) = (if j = k then votes_at k m @ [v] else votes_at j m)"
  by (simp add: votes_at_def map_find_push_back_at)

lemma vote_count_push_back_at: "vote_count (push_back_at k v m) = Suc (vote_count m)"
  by (induction m) (auto simp: vote_count_def)

lemma map_assign_keys: "fst ` set (map_assign k v m) = insert k (fst ` set m)"
  by (induction m) (force split: if_splits)+

lemma std_map_map_assign: "std_map m \<Longrightarrow> std_map (map_assign k v m)"
proof (induction m)
  case Nil
  then show ?case by (simp add: std_map_def)
next
  case (Cons e m)
  then show ?case
    by (cases e) (auto simp: std_map_def map_assign_keys)
qed

subsection \<open>The nested comparison\<close>

lemma compareLoop_counts:
  "compareLoop thresh sd xs (failCount, totalCount) =
     (failCount + length (filter (\<lambda>q. fst q \<noteq> fst sd \<and>
                                      dlt (dabs (dsub (snd sd) (snd q))) thresh) xs),
      totalCount + length (filter (\<lambda>q. fst q \<noteq> fst sd) xs))"
  by (induction xs arbitrary: failCount totalCount) (auto simp: Let_def)

lemma length_filter_rev: "length (filter P (rev xs)) = length (filter P xs)"
  by (simp add: rev_filter [symmetric])

lemma others_count:
  "distinct (map fst m) \<Longrightarrow> sd \<in> set m \<Longrightarrow>
     length (filter (\<lambda>q. fst q \<noteq> fst sd) m) = length m - 1"
proof (induction m)
  case Nil
  then show ?case by simp
next
  case (Cons e m)
  show ?case
  proof (cases "sd = e")
    case True
    from Cons.prems(1) have "\<forall>q \<in> set m. fst q \<noteq> fst e" by (auto simp: image_iff)
    then have "filter (\<lambda>q. fst q \<noteq> fst e) m = m" by (simp add: filter_id_conv)
    with True show ?thesis by simp
  next
    case False
    with Cons.prems have in_m: "sd \<in> set m" and d: "distinct (map fst m)"
      and ne: "fst e \<noteq> fst sd"
      by (auto simp: image_iff)
    from in_m have "0 < length m" by (cases m) auto
    with Cons.IH [OF d in_m] ne show ?thesis by simp
  qed
qed

text \<open>What the inner loop returns for an entry of the map: the fails among the other
  entries, and one comparison for every other entry.\<close>

lemma compareLoop_entry:
  assumes "std_map diffMap" and "sd \<in> set diffMap"
  shows "compareLoop thresh sd (rev diffMap) (0, 0) =
           (failCount_of thresh diffMap sd, length diffMap - 1)"
  using others_count [OF std_map_distinct [OF assms(1)] assms(2)]
  by (simp add: compareLoop_counts length_filter_rev failCount_of_def)

text \<open>The level the body of the outer loop pushes for an entry.\<close>

lemma sdLoop_step:
  "sdLoop s diffMap (sd # rest) votes =
     sdLoop s diffMap rest
       (push_back_at (fst sd)
          (case compareLoop (singleDiffCompareThresh s) sd (rev diffMap) (0, 0) of
             (failCount, totalCount) \<Rightarrow>
               if totalCount < unat (prnCountThresh s - 1) then Unavailable
               else if dgt (ddiv (double_of_nat failCount) (double_of_nat totalCount))
                           (singleDiffCompareFailureLimit s)
               then Unassured else Assured)
          votes)"
  by (simp add: Let_def split: prod.splits)

lemma sdLoop_vote_count:
  "vote_count (sdLoop s diffMap rest votes) = vote_count votes + length rest"
proof (induction rest arbitrary: votes)
  case Nil
  then show ?case by simp
next
  case (Cons sd rest)
  show ?case
    unfolding sdLoop_step by (simp add: Cons.IH vote_count_push_back_at)
qed

lemma sdLoop_appends:
  "\<exists>tail. votes_at p (sdLoop s diffMap rest votes) = votes_at p votes @ tail"
proof (induction rest arbitrary: votes)
  case Nil
  then show ?case by simp
next
  case (Cons sd rest)
  obtain l where st:
    "sdLoop s diffMap (sd # rest) votes = sdLoop s diffMap rest (push_back_at (fst sd) l votes)"
    using sdLoop_step by blast
  from Cons.IH [of "push_back_at (fst sd) l votes"] show ?case
    unfolding st by (auto simp: votes_at_push_back_at)
qed

text \<open>The votes of a PRN after the outer loop has run over the entries \<open>rest\<close>: its
  earlier votes, followed by one vote if it is among \<open>rest\<close>.\<close>

lemma sdLoop_votes:
  assumes "std_map diffMap" and "set rest \<subseteq> set diffMap" and "distinct (map fst rest)"
    and "prnCountThresh s \<noteq> 0"
  shows "votes_at p (sdLoop s diffMap rest votes) =
           votes_at p votes @
           (case map_of rest p of None \<Rightarrow> [] | Some d \<Rightarrow> [prnVote s diffMap (p, d)])"
  using assms(2,3)
proof (induction rest arbitrary: votes)
  case Nil
  then show ?case by simp
next
  case (Cons sd rest)
  obtain k d where sd: "sd = (k, d)" by (cases sd)
  from Cons.prems have mem: "sd \<in> set diffMap" and sub: "set rest \<subseteq> set diffMap"
    and dist: "distinct (map fst rest)" and fresh: "k \<notin> fst ` set rest"
    by (auto simp: sd)
  have thr: "unat (prnCountThresh s - 1) = unat (prnCountThresh s) - 1"
    using assms(4) by (simp add: unat_minus_one)
  have guard: "(length diffMap - 1 < unat (prnCountThresh s) - 1)
                 = (int (length diffMap) - 1 < uint (prnCountThresh s) - 1)"
  proof -
    from mem have "0 < length diffMap" by (cases diffMap) auto
    moreover from assms(4) have "0 < unat (prnCountThresh s)" by (simp add: unat_gt_0)
    moreover have "uint (prnCountThresh s) = int (unat (prnCountThresh s))" by simp
    ultimately show ?thesis by linarith
  qed
  have step: "sdLoop s diffMap (sd # rest) votes =
      sdLoop s diffMap rest (push_back_at k (prnVote s diffMap sd) votes)"
    unfolding sdLoop_step compareLoop_entry [OF assms(1) mem]
    using guard by (auto simp: sd thr prnVote_def failPercent_of_def)
  have later: "map_of rest k = None"
    using fresh by (simp add: map_of_eq_None_iff)
  show ?case
    unfolding step Cons.IH [OF sub dist]
    by (simp add: votes_at_push_back_at sd later)
qed

text \<open>
  The nested comparison for a PRN count threshold of at least 1. Let the
  single-difference map hold \<open>n\<close> PRNs. For a PRN \<open>p\<close> of the map the nested comparison
  compares \<open>diff(p)\<close> with the value of every other PRN of the map and never with its
  own, so it makes \<open>n - 1\<close> comparisons; it counts a fail when
  \<open>|diff(p) - diff(q)| < singleDiffCompareThresh\<close>; and it appends to the votes of \<open>p\<close>
  exactly one vote, the one of section 4.2a: Unavailable when
  \<open>n - 1 < prnCountThresh - 1\<close>, Unassured when \<open>failCount / (n - 1)\<close> exceeds the
  failure limit, Assured otherwise. The votes of PRNs outside the map are unchanged,
  and exactly \<open>n\<close> votes are added in all.
\<close>

theorem nestedForLoopComparison_votes:
  assumes "std_map diffMap" and "prnCountThresh s \<noteq> 0"
  shows "(\<forall>sd \<in> set diffMap.
            compareLoop (singleDiffCompareThresh s) sd (rev diffMap) (0, 0) =
              (failCount_of (singleDiffCompareThresh s) diffMap sd, length diffMap - 1)) \<and>
         votes_at p (nestedForLoopComparison s diffMap votes) =
           votes_at p votes @
           (case map_find p diffMap of
              None \<Rightarrow> []
            | Some d \<Rightarrow> [prnVote s diffMap (p, d)]) \<and>
         vote_count (nestedForLoopComparison s diffMap votes) = vote_count votes + length diffMap"
  using assms
  by (simp add: nestedForLoopComparison_def sdLoop_vote_count compareLoop_entry
      sdLoop_votes std_map_distinct map_find_map_of)

text \<open>Threshold 2, compare threshold 5, failure limit 0.7, and the map
  \<open>{3 \<mapsto> 10, 7 \<mapsto> 12}\<close>: each PRN has one comparison and it fails, so both votes are
  Unassured; PRN 9 is not in the map and gets none.\<close>

theorem nestedForLoopComparison_votes_witness:
  "std_map [(3, Num 10), (7, Num 12)] \<and>
   prnCountThresh (aoa_sample 2 []) \<noteq> 0 \<and>
   votes_at 3 (nestedForLoopComparison (aoa_sample 2 []) [(3, Num 10), (7, Num 12)] [])
     = [Unassured] \<and>
   votes_at 7 (nestedForLoopComparison (aoa_sample 2 []) [(3, Num 10), (7, Num 12)] [])
     = [Unassured] \<and>
   votes_at 9 (nestedForLoopComparison (aoa_sample 2 []) [(3, Num 10), (7, Num 12)] [])
     = [] \<and>
   vote_count (nestedForLoopComparison (aoa_sample 2 []) [(3, Num 10), (7, Num 12)] []) = 2"
proof -
  let ?s = "aoa_sample 2 []" and ?m = "[(3, Num 10), (7, Num 12)] :: SingleDiffMap"
  have h1: "std_map ?m" by (simp add: std_map_def)
  have h2: "prnCountThresh ?s \<noteq> 0" by (simp add: aoa_sample_def)
  have f: "failCount_of (singleDiffCompareThresh ?s) ?m (3, Num 10) = 1"
          "failCount_of (singleDiffCompareThresh ?s) ?m (7, Num 12) = 1"
    by (simp_all add: failCount_of_def aoa_sample_def dsub_def)
  have v: "prnVote ?s ?m (3, Num 10) = Unassured" "prnVote ?s ?m (7, Num 12) = Unassured"
    unfolding prnVote_def failPercent_of_def f
    by (simp_all add: aoa_sample_def double_of_nat_def dgt_def)
  have e: "votes_at k ([] :: PrnAssuranceEachNode) = []" for k
    by (simp add: votes_at_def)
  note t = nestedForLoopComparison_votes [OF h1 h2, where votes = "[]"]
  from t [of 3] have "votes_at 3 (nestedForLoopComparison ?s ?m []) = [Unassured]"
    by (simp add: e v)
  moreover from t [of 7] have "votes_at 7 (nestedForLoopComparison ?s ?m []) = [Unassured]"
    by (simp add: e v)
  moreover from t [of 9] have "votes_at 9 (nestedForLoopComparison ?s ?m []) = []"
    by (simp add: e)
  moreover from t [of 9] have "vote_count (nestedForLoopComparison ?s ?m []) = 2"
    by (simp add: vote_count_def)
  ultimately show ?thesis
    using h1 h2 by simp
qed

text \<open>
  \<^bold>\<open>C1\<close>, on the code. With \<open>prnCountThresh_ = 0\<close> the code's own note on the guard,
  \<open>minimumTotalCount = (prnCountThresh_ - 1)\<close>, asks for no minimum at all, and the
  gate on the local snapshot, \<open>size() < prnCountThresh_\<close>, lets every snapshot pass.
  But \<open>prnCountThresh_ - 1\<close> is compared with the \<open>size_t\<close> \<open>totalCount\<close> and wraps
  around to \<open>2\<^sup>6\<^sup>4 - 1\<close>: both PRNs of \<open>{3 \<mapsto> 10, 7 \<mapsto> 50}\<close> are voted Unavailable,
  where \<open>n - 1 = 1\<close> is not below \<open>0 - 1\<close> and no comparison fails, so that the vote of
  section 4.2a is Assured.
\<close>

theorem nestedForLoopComparison_threshold_zero_wraps:
  "unat (prnCountThresh (aoa_sample 0 []) - 1) = 2 ^ 64 - 1 \<and>
   \<not> length (observables local_sample) < unat (prnCountThresh (aoa_sample 0 [])) \<and>
   compareLoop (singleDiffCompareThresh (aoa_sample 0 [])) (3, Num 10)
     (rev [(3, Num 10), (7, Num 50)]) (0, 0) = (0, 1) \<and>
   nestedForLoopComparison (aoa_sample 0 []) [(3, Num 10), (7, Num 50)] []
     = [(3, [Unavailable]), (7, [Unavailable])] \<and>
   prnVote (aoa_sample 0 []) [(3, Num 10), (7, Num 50)] (3, Num 10) = Assured \<and>
   prnVote (aoa_sample 0 []) [(3, Num 10), (7, Num 50)] (7, Num 50) = Assured"
  by (simp add: nestedForLoopComparison_def prnVote_def failPercent_of_def failCount_of_def
      aoa_sample_def local_sample_def dsub_def dgt_def double_of_nat_def
      unsigned_minus_1_eq_mask mask_eq_exp_minus_1)

text \<open>
  \<^bold>\<open>C10.\<close> For a single-difference map with exactly one PRN the inner loop makes no
  comparison, so \<open>failCount\<close> and \<open>totalCount\<close> are both 0 and \<open>failPercent\<close>, computed
  before the guard, is \<open>0/0\<close>, that is NaN. When \<open>prnCountThresh\<close> is at least 2 the
  guard \<open>totalCount < prnCountThresh - 1\<close> holds and the one vote appended is
  Unavailable, whatever the failure limit: the quotient decides nothing.
\<close>

theorem lone_prn_is_unavailable:
  assumes "2 \<le> unat (prnCountThresh s)"
  shows "compareLoop (singleDiffCompareThresh s) (p, d) (rev [(p, d)]) (0, 0) = (0, 0) \<and>
         ddiv (double_of_nat 0) (double_of_nat 0) = NaN \<and>
         nestedForLoopComparison s [(p, d)] votes = push_back_at p Unavailable votes \<and>
         votes_at p (nestedForLoopComparison s [(p, d)] votes) = votes_at p votes @ [Unavailable]"
proof -
  from assms have "prnCountThresh s \<noteq> 0"
    by auto
  then have "unat (prnCountThresh s - 1) = unat (prnCountThresh s) - 1"
    by (simp add: unat_minus_one)
  with assms have g: "0 < unat (prnCountThresh s - 1)"
    by simp
  have n: "nestedForLoopComparison s [(p, d)] votes = push_back_at p Unavailable votes"
    using g by (simp add: nestedForLoopComparison_def)
  show ?thesis
    unfolding n by (simp add: votes_at_push_back_at double_of_nat_def)
qed

theorem lone_prn_is_unavailable_witness:
  "2 \<le> unat (prnCountThresh (aoa_sample 5 [])) \<and>
   nestedForLoopComparison (aoa_sample 5 []) [(7, Num 3)] [] = [(7, [Unavailable])] \<and>
   votes_at 7 (nestedForLoopComparison (aoa_sample 5 []) [(7, Num 3)] []) = [Unavailable]"
proof -
  have h: "2 \<le> unat (prnCountThresh (aoa_sample 5 []))"
    by (simp add: aoa_sample_def)
  from lone_prn_is_unavailable [OF h, of 7 "Num 3" "[]"] show ?thesis
    using h by (simp add: votes_at_def)
qed

subsection \<open>The aggregate level\<close>

lemma countLoop_counts:
  "countLoop levels (totalCount, assuredCount, unavailableCount, suspectCount) =
     (totalCount + length levels, assuredCount + assuredCount_of levels,
      unavailableCount + unavailableCount_of levels, suspectCount + suspectCount_of levels)"
proof (induction levels arbitrary: totalCount assuredCount unavailableCount suspectCount)
  case Nil
  then show ?case
    by (simp add: assuredCount_of_def unavailableCount_of_def suspectCount_of_def)
next
  case (Cons e levels)
  obtain prn level where e: "e = (prn, level)" by (cases e)
  show ?case
    unfolding e
    by (simp add: Cons.IH assuredCount_of_def unavailableCount_of_def suspectCount_of_def)
qed

lemma calculateAssuranceLevel_frame:
  "prnAssuranceLevels (calculateAssuranceLevel checkTime s) = prnAssuranceLevels s"
  "lastAssuranceUpdate (calculateAssuranceLevel checkTime s) = checkTime"
  by (simp_all add: calculateAssuranceLevel_def changeAssuranceLevel_def Let_def
      split: prod.splits)

text \<open>
  The aggregate decision for a PRN count threshold of at least 1. Whatever the stored
  per-PRN map and the thresholds are, \<open>calculateAssuranceLevel\<close> counts every entry of
  that map as assured (Assured), unavailable (Unavailable) or suspect (any other level),
  and sets the level of the check by the first rule that applies: Unavailable when the
  number of entries is below \<open>prnCountThresh - 1\<close>; Unassured when the suspect fraction
  is at least the unassured threshold; Inconsistent when it is at least the
  inconsistent threshold; Assured when the assured fraction exceeds the assured
  threshold; Unavailable otherwise. The stored map itself is not changed.
\<close>

theorem calculateAssuranceLevel_decision:
  assumes "prnCountThresh s \<noteq> 0"
  shows "countLoop (prnAssuranceLevels s) (0, 0, 0, 0) =
           (length (prnAssuranceLevels s), assuredCount_of (prnAssuranceLevels s),
            unavailableCount_of (prnAssuranceLevels s), suspectCount_of (prnAssuranceLevels s)) \<and>
         assuranceLevel (calculateAssuranceLevel checkTime s) = aggregateLevel s \<and>
         lastAssuranceUpdate (calculateAssuranceLevel checkTime s) = checkTime \<and>
         prnAssuranceLevels (calculateAssuranceLevel checkTime s) = prnAssuranceLevels s"
proof -
  have thr: "unat (prnCountThresh s - 1) = unat (prnCountThresh s) - 1"
    using assms by (simp add: unat_minus_one)
  have guard: "(length (prnAssuranceLevels s) < unat (prnCountThresh s) - 1)
                 = (int (length (prnAssuranceLevels s)) < uint (prnCountThresh s) - 1)"
  proof -
    from assms have "0 < unat (prnCountThresh s)" by (simp add: unat_gt_0)
    moreover have "uint (prnCountThresh s) = int (unat (prnCountThresh s))" by simp
    ultimately show ?thesis by linarith
  qed
  have lvl: "assuranceLevel (calculateAssuranceLevel checkTime s) = aggregateLevel s"
    using guard
    by (auto simp: calculateAssuranceLevel_def aggregateLevel_def countLoop_counts thr
        fraction_def changeAssuranceLevel_def Let_def)
  show ?thesis
    by (simp add: lvl calculateAssuranceLevel_frame countLoop_counts)
qed

text \<open>Threshold 2, thresholds 0.5 (unassured), 0.25 (inconsistent) and 0.5 (assured),
  and a stored map with two Assured, one Inconsistent and one Unavailable PRN: the
  suspect fraction is a quarter, so the level is Inconsistent.\<close>

theorem calculateAssuranceLevel_decision_witness:
  "prnCountThresh
     (aoa_sample 2 [(3, Assured), (7, Inconsistent), (9, Assured), (12, Unavailable)]) \<noteq> 0 \<and>
   assuranceLevel (calculateAssuranceLevel (Num 100)
     (aoa_sample 2 [(3, Assured), (7, Inconsistent), (9, Assured), (12, Unavailable)]))
     = Inconsistent"
proof -
  let ?s = "aoa_sample 2 [(3, Assured), (7, Inconsistent), (9, Assured), (12, Unavailable)]"
  have h: "prnCountThresh ?s \<noteq> 0" by (simp add: aoa_sample_def)
  have a: "aggregateLevel ?s = Inconsistent"
    by (simp add: aggregateLevel_def aoa_sample_def suspectCount_of_def assuredCount_of_def
        fraction_def double_of_nat_def dge_def dle_def dgt_def)
  from calculateAssuranceLevel_decision [OF h, of "Num 100"] show ?thesis
    using h by (simp add: a)
qed

text \<open>
  \<^bold>\<open>C2\<close>, on the code. With \<open>prnCountThresh_ = 0\<close> the first test,
  \<open>totalCount < (prnCountThresh_ - 1)\<close>, is meant to ask for no minimum, as the gate
  \<open>size() < prnCountThresh_\<close> on the local snapshot does. But the subtraction wraps
  around to \<open>2\<^sup>6\<^sup>4 - 1\<close> in the unsigned comparison with \<open>totalCount\<close>, so the test
  always holds: a stored map with one Assured PRN gives Unavailable, where the total 1
  is not below \<open>0 - 1\<close>, the suspect fraction is 0 and the assured fraction 1 exceeds
  the assured threshold, which by the rules of section 4.2 is Assured.
\<close>

theorem calculateAssuranceLevel_threshold_zero_wraps:
  "unat (prnCountThresh (aoa_sample 0 [(3, Assured)]) - 1) = 2 ^ 64 - 1 \<and>
   countLoop (prnAssuranceLevels (aoa_sample 0 [(3, Assured)])) (0, 0, 0, 0) = (1, 1, 0, 0) \<and>
   assuranceLevel (calculateAssuranceLevel (Num 100) (aoa_sample 0 [(3, Assured)]))
     = Unavailable \<and>
   aggregateLevel (aoa_sample 0 [(3, Assured)]) = Assured"
  by (simp add: calculateAssuranceLevel_def aggregateLevel_def aoa_sample_def
      changeAssuranceLevel_def suspectCount_of_def assuredCount_of_def fraction_def
      double_of_nat_def dge_def dle_def dgt_def unsigned_minus_1_eq_mask mask_eq_exp_minus_1)

subsection \<open>The per-PRN reduction\<close>

lemma max_element_from_mem: "max_element_from lt x xs \<in> set (x # xs)"
  by (induction xs arbitrary: x) auto

lemma max_element_from_ge:
  "\<forall>v \<in> set (x # xs). levelCode v \<le> levelCode (max_element_from level_less x xs)"
proof (induction xs arbitrary: x)
  case Nil
  then show ?case by simp
next
  case (Cons y ys)
  let ?z = "if level_less x y then y else x"
  have start: "levelCode x \<le> levelCode ?z" "levelCode y \<le> levelCode ?z"
    by (simp_all add: level_less_def)
  from Cons.IH [of ?z]
  have rest: "\<forall>v \<in> set (?z # ys). levelCode v \<le> levelCode (max_element_from level_less ?z ys)" .
  then have top: "levelCode ?z \<le> levelCode (max_element_from level_less ?z ys)"
    by simp
  show ?case
  proof
    fix v
    assume "v \<in> set (x # y # ys)"
    then consider "v = x" | "v = y" | "v \<in> set ys" by auto
    then show "levelCode v \<le> levelCode (max_element_from level_less x (y # ys))"
    proof cases
      case 1
      with start(1) top show ?thesis by simp
    next
      case 2
      with start(2) top show ?thesis by simp
    next
      case 3
      with rest show ?thesis by simp
    qed
  qed
qed

lemma levelCode_top: "3 \<le> levelCode l \<Longrightarrow> l = Unassured"
  by (cases l) simp_all

lemma max_element_level:
  assumes "vs \<noteq> []"
  shows "\<exists>l. max_element level_less vs = Some l \<and> l \<in> set vs \<and>
             (\<forall>v \<in> set vs. levelCode v \<le> levelCode l) \<and>
             (Unassured \<in> set vs \<longrightarrow> l = Unassured)"
proof -
  from assms obtain x xs where vs: "vs = x # xs" by (cases vs) auto
  define l where "l = max_element_from level_less x xs"
  have m: "max_element level_less vs = Some l"
    by (simp add: vs l_def)
  have mem: "l \<in> set vs"
    unfolding vs l_def by (rule max_element_from_mem)
  have ge: "\<forall>v \<in> set vs. levelCode v \<le> levelCode l"
    unfolding vs l_def by (rule max_element_from_ge)
  have top: "l = Unassured" if "Unassured \<in> set vs"
  proof -
    from ge that have "levelCode Unassured \<le> levelCode l" by blast
    then show ?thesis by (simp add: levelCode_top)
  qed
  from m mem ge top show ?thesis by blast
qed

lemma setPrnLoop_result:
  assumes "distinct (map fst votes)" and "\<forall>e \<in> set votes. snd e \<noteq> []"
  shows "\<exists>levels'. setPrnLoop votes levels = Some levels' \<and>
           (\<forall>p. map_find p levels' =
              (case map_of votes p of
                 None \<Rightarrow> map_find p levels
               | Some vs \<Rightarrow> max_element level_less vs))"
  using assms
proof (induction votes arbitrary: levels)
  case Nil
  then show ?case by simp
next
  case (Cons e votes)
  obtain k vs where e: "e = (k, vs)" by (cases e)
  from Cons.prems have d: "distinct (map fst votes)" and n: "\<forall>e \<in> set votes. snd e \<noteq> []"
    and fresh: "map_of votes k = None" and ne: "vs \<noteq> []"
    by (auto simp: e map_of_eq_None_iff)
  from max_element_level [OF ne] obtain l where l: "max_element level_less vs = Some l"
    by blast
  from Cons.IH [OF d n, of "map_assign k l levels"] obtain levels' where
    r: "setPrnLoop votes (map_assign k l levels) = Some levels'" and
    f: "\<And>p. map_find p levels' =
          (case map_of votes p of
             None \<Rightarrow> map_find p (map_assign k l levels)
           | Some vs \<Rightarrow> max_element level_less vs)"
    by blast
  have "map_find p levels' =
          (case map_of (e # votes) p of
             None \<Rightarrow> map_find p levels
           | Some vs \<Rightarrow> max_element level_less vs)" for p
    unfolding f e using fresh l by (simp add: map_find_map_assign split: option.splits)
  with r l show ?case
    by (simp add: e)
qed

text \<open>
  \<^bold>\<open>C3.\<close> Let the vote map of a cycle hold, for each of its PRNs, at least one vote (a
  PRN enters the map with its first vote). Then \<open>setPrnAssuranceLevels\<close> stores, for
  every PRN \<open>p\<close> with votes \<open>vs\<close>, a level that is one of \<open>vs\<close> and whose rank is at
  least the rank of every vote in \<open>vs\<close>, the ranks being Unavailable, Assured,
  Inconsistent, Unassured in increasing order; so a single Unassured vote makes the
  level of \<open>p\<close> Unassured. A PRN without votes in this cycle keeps its stored level.
\<close>

theorem setPrnAssuranceLevels_maximum:
  assumes "std_map votes" and "\<forall>e \<in> set votes. snd e \<noteq> []"
    and "map_find p votes = Some vs"
  shows "\<exists>s' l. setPrnAssuranceLevels votes s = Some s' \<and>
           map_find p (prnAssuranceLevels s') = Some l \<and>
           l \<in> set vs \<and>
           (\<forall>v \<in> set vs. levelCode v \<le> levelCode l) \<and>
           (Unassured \<in> set vs \<longrightarrow> l = Unassured) \<and>
           (\<forall>q. map_find q votes = None \<longrightarrow>
                map_find q (prnAssuranceLevels s') = map_find q (prnAssuranceLevels s))"
proof -
  from setPrnLoop_result [OF std_map_distinct [OF assms(1)] assms(2), of "prnAssuranceLevels s"]
  obtain levels' where r: "setPrnLoop votes (prnAssuranceLevels s) = Some levels'"
    and f: "\<And>q. map_find q levels' =
              (case map_of votes q of
                 None \<Rightarrow> map_find q (prnAssuranceLevels s)
               | Some vs \<Rightarrow> max_element level_less vs)"
    by blast
  from assms(1,3) have at_p: "map_of votes p = Some vs"
    by (simp add: map_find_map_of)
  then have "(p, vs) \<in> set votes"
    by (rule map_of_SomeD)
  with assms(2) have "vs \<noteq> []"
    by auto
  from max_element_level [OF this] obtain l where
    l: "max_element level_less vs = Some l" "l \<in> set vs"
       "\<forall>v \<in> set vs. levelCode v \<le> levelCode l" "Unassured \<in> set vs \<longrightarrow> l = Unassured"
    by blast
  have s': "setPrnAssuranceLevels votes s = Some (s\<lparr>prnAssuranceLevels := levels'\<rparr>)"
    by (simp add: setPrnAssuranceLevels_def r)
  have stored: "map_find p levels' = Some l"
    by (simp add: f at_p l(1))
  have kept: "map_find q levels' = map_find q (prnAssuranceLevels s)"
    if "map_find q votes = None" for q
    using that assms(1) by (simp add: f map_find_map_of)
  from s' stored l(2-4) kept show ?thesis
    by simp
qed

text \<open>PRN 3 was voted Assured, Unassured and Inconsistent, PRN 7 Unavailable and
  Assured, and PRN 5 has a stored level from an earlier cycle: the reduction stores
  Unassured for 3 and Assured for 7 and keeps 5.\<close>

theorem setPrnAssuranceLevels_maximum_witness:
  "std_map [(3, [Assured, Unassured, Inconsistent]), (7, [Unavailable, Assured])] \<and>
   map_find 3 [(3, [Assured, Unassured, Inconsistent]), (7, [Unavailable, Assured])]
     = Some [Assured, Unassured, Inconsistent] \<and>
   setPrnAssuranceLevels
     [(3, [Assured, Unassured, Inconsistent]), (7, [Unavailable, Assured])]
     (aoa_sample 2 [(5, Inconsistent)])
     = Some ((aoa_sample 2 [(5, Inconsistent)])
               \<lparr>prnAssuranceLevels := [(3, Unassured), (5, Inconsistent), (7, Assured)]\<rparr>)"
proof -
  let ?v = "[(3, [Assured, Unassured, Inconsistent]), (7, [Unavailable, Assured])]
              :: PrnAssuranceEachNode"
  let ?s = "aoa_sample 2 [(5, Inconsistent)]"
  have h1: "std_map ?v" by (simp add: std_map_def)
  have h2: "\<forall>e \<in> set ?v. snd e \<noteq> []" by simp
  have h3: "map_find 3 ?v = Some [Assured, Unassured, Inconsistent]" by simp
  have c: "setPrnAssuranceLevels ?v ?s
             = Some (?s\<lparr>prnAssuranceLevels := [(3, Unassured), (5, Inconsistent), (7, Assured)]\<rparr>)"
    by (simp add: setPrnAssuranceLevels_def level_less_def aoa_sample_def)
  from setPrnAssuranceLevels_maximum [OF h1 h2 h3, of ?s] show ?thesis
    using h1 h3 c by simp
qed

subsection \<open>Remote nodes that are skipped\<close>

lemma localLoop_step:
  "\<exists>singleDiffMap' s'.
     localLoop rng remoteObservables ((prn, lo) # rest) (singleDiffMap, votes, s) =
       localLoop rng remoteObservables rest
         (singleDiffMap',
          if pseudorangeValid lo then push_back_at prn (assurance lo) votes else votes,
          s')"
  unfolding localLoop.simps Let_def
  by (cases "aoaCheckData s"; cases "map_find prn remoteObservables"; simp; blast)

text \<open>The votes after the loop over the local observables: one vote, the carried
  level, for every local observable with a valid pseudorange, whether or not the range
  gate lets the difference be computed.\<close>

lemma localLoop_votes:
  assumes "distinct (map fst los)"
  shows "votes_at p (fst (snd (localLoop rng remoteObservables los (singleDiffMap, votes, s)))) =
           votes_at p votes @
           (case map_of los p of
              None \<Rightarrow> []
            | Some lo \<Rightarrow> if pseudorangeValid lo then [assurance lo] else [])"
  using assms
proof (induction los arbitrary: singleDiffMap votes s)
  case Nil
  then show ?case by simp
next
  case (Cons e los)
  obtain prn lo where e: "e = (prn, lo)" by (cases e)
  from Cons.prems have d: "distinct (map fst los)" and fresh: "map_of los prn = None"
    by (auto simp: e map_of_eq_None_iff)
  from localLoop_step [of rng remoteObservables prn lo los singleDiffMap votes s]
  obtain singleDiffMap' s' where
    st: "localLoop rng remoteObservables ((prn, lo) # los) (singleDiffMap, votes, s) =
           localLoop rng remoteObservables los
             (singleDiffMap',
              if pseudorangeValid lo then push_back_at prn (assurance lo) votes else votes,
              s')"
    by blast
  show ?case
    unfolding e st Cons.IH [OF d]
    using fresh by (simp add: votes_at_push_back_at)
qed

text \<open>
  \<^bold>\<open>C4\<close>, as amended. A remote node that is skipped, because its snapshot is empty or
  it reports the local device id, adds nothing to the vote map of the cycle: the loop
  goes on to the next node, or returns when there is none, with the votes it had. A
  remote node that is not skipped adds, for every local observable with a valid
  pseudorange, the carried assurance level of that observable as one vote for its PRN,
  ahead of any vote of the nested comparison; so a locally valid PRN has at least one
  vote for every remote node that was processed.
\<close>

theorem votes_seeded_by_processed_nodes_only:
  assumes "std_map (observables localObs)"
    and "map_find p (observables localObs) = Some lo"
    and "pseudorangeValid lo"
  shows "(skipped localObs (snd remote) \<longrightarrow>
            remoteLoop checkTime localObs (remote # rest) votes s =
              (if rest = [] then (True, votes, s)
               else remoteLoop checkTime localObs rest votes s)) \<and>
         (\<not> skipped localObs (snd remote) \<longrightarrow>
            (\<exists>tail. votes_at p (fst (processRemote checkTime localObs remote votes s)) =
                      votes_at p votes @ assurance lo # tail) \<and>
            remoteLoop checkTime localObs (remote # rest) votes s =
              (case processRemote checkTime localObs remote votes s of
                 (votes', s') \<Rightarrow> remoteLoop checkTime localObs rest votes' s'))"
proof -
  from assms(1,2) have at_p: "map_of (observables localObs) p = Some lo"
    by (simp add: map_find_map_of)
  let ?r = "localLoop (remoteRange (snd remote)) (observables (remoteObs (snd remote)))
              (observables localObs) ([], votes, s)"
  obtain singleDiffMap votes1 s1 where r: "?r = (singleDiffMap, votes1, s1)"
    by (cases ?r)
  from localLoop_votes [OF std_map_distinct [OF assms(1)], of p
         "remoteRange (snd remote)" "observables (remoteObs (snd remote))" "[]" votes s]
  have seeded: "votes_at p votes1 = votes_at p votes @ [assurance lo]"
    using at_p assms(3) by (simp add: r)
  obtain s2 where p: "processRemote checkTime localObs remote votes s =
      (nestedForLoopComparison s2 singleDiffMap votes1, s2)"
    by (simp add: processRemote_def r Let_def)
  from sdLoop_appends [of p s2 singleDiffMap singleDiffMap votes1]
  obtain tail where "votes_at p (nestedForLoopComparison s2 singleDiffMap votes1) =
      votes_at p votes1 @ tail"
    by (auto simp: nestedForLoopComparison_def)
  with seeded p
  have "\<exists>tail. votes_at p (fst (processRemote checkTime localObs remote votes s)) =
          votes_at p votes @ assurance lo # tail"
    by simp
  then show ?thesis
    by (auto simp: skipped_def)
qed

lemmas sample_defs =
  local_sample_def remote_sample_def node_def obs_def aoa_sample_def skipped_def

lemmas cycle_defs =
  processRemote_def nestedForLoopComparison_def checkAngleOfArrival_def
  setPrnAssuranceLevels_def calculateAssuranceLevel_def changeAssuranceLevel_def
  level_less_def dsub_def dge_def dle_def dgt_def double_of_nat_def Let_def

text \<open>The local snapshot holds PRNs 3 and 7, both valid and Assured. The node \<open>a\<close> with
  an empty snapshot is skipped and leaves the votes empty; the node \<open>b\<close> is processed
  and PRN 3 gets its carried level as first vote, followed by the vote of the nested
  comparison.\<close>

theorem votes_seeded_by_processed_nodes_only_witness:
  "std_map (observables local_sample) \<and>
   map_find 3 (observables local_sample) = Some (obs 100 Assured) \<and>
   pseudorangeValid (obs 100 Assured) \<and>
   skipped local_sample (node ''a'' []) \<and>
   remoteLoop (Num 100) local_sample [(''a'', node ''a'' [])] [] (aoa_sample 2 [])
     = (True, [], aoa_sample 2 []) \<and>
   \<not> skipped local_sample (remote_sample ''b'') \<and>
   votes_at 3 (fst (processRemote (Num 100) local_sample (''b'', remote_sample ''b'') []
                      (aoa_sample 2 [])))
     = [Assured, Assured]"
proof -
  have h1: "std_map (observables local_sample)"
    by (simp add: std_map_def sample_defs)
  have h2: "map_find 3 (observables local_sample) = Some (obs 100 Assured)"
    by (simp add: sample_defs)
  have h3: "pseudorangeValid (obs 100 Assured)"
    by (simp add: sample_defs)
  have k: "skipped local_sample (snd (''a'', node ''a'' []))"
          "\<not> skipped local_sample (snd (''b'', remote_sample ''b''))"
    by (simp_all add: sample_defs)
  have v: "votes_at 3 (fst (processRemote (Num 100) local_sample (''b'', remote_sample ''b'') []
                      (aoa_sample 2 []))) = [Assured, Assured]"
    by (simp add: sample_defs cycle_defs votes_at_def)
  note t = votes_seeded_by_processed_nodes_only [OF h1 h2 h3]
  from t [of "(''a'', node ''a'' [])" "Num 100" "[]" "[]" "aoa_sample 2 []"] k(1)
  have "remoteLoop (Num 100) local_sample [(''a'', node ''a'' [])] [] (aoa_sample 2 [])
          = (True, [], aoa_sample 2 [])"
    by simp
  with h1 h2 h3 k v show ?thesis
    by simp
qed

text \<open>As the specification states it, the property fails when every remote node is skipped: with one node whose
  snapshot is empty and one that reports the local device id, the loop returns with an
  empty vote map, so the locally valid PRN 3 has no vote in the cycle.\<close>

theorem skipped_nodes_seed_nothing_counterexample:
  "map_find 3 (observables local_sample) = Some (obs 100 Assured) \<and>
   pseudorangeValid (obs 100 Assured) \<and>
   skipped local_sample (node ''a'' []) \<and>
   skipped local_sample (remote_sample ''rover'') \<and>
   remoteLoop (Num 100) local_sample
       [(''a'', node ''a'' []), (''b'', remote_sample ''rover'')] [] (aoa_sample 2 [])
     = (True, [], aoa_sample 2 []) \<and>
   votes_at 3 (fst (snd (remoteLoop (Num 100) local_sample
       [(''a'', node ''a'' []), (''b'', remote_sample ''rover'')] [] (aoa_sample 2 [])))) = []"
  by (simp add: sample_defs votes_at_def)

subsection \<open>A skipped node at the end of the iteration\<close>

text \<open>
  \<^bold>\<open>C5\<close>, on the code. The remote map holds the usable node \<open>a\<close> and the node \<open>b\<close> with
  an empty snapshot; the map is iterated in key order, \<open>a\<close> first. Node \<open>a\<close> is processed
  and its votes are collected, but at node \<open>b\<close> there is no further entry and the
  function returns from inside the loop: the reduction and the classification do not
  run, the level stays Unavailable and nothing is published. With the same two
  snapshots under the keys the other way round the skipped node comes first, the loop
  continues, and the cycle ends with the level Assured and one diagnostics record.
\<close>

theorem skipped_last_node_discards_cycle:
  "remoteLoop (Num 100) local_sample
       [(''a'', remote_sample ''a''), (''b'', node ''b'' [])] [] (aoa_sample 2 [])
     = (True, [(3, [Assured, Assured]), (7, [Assured, Assured])], aoa_sample 2 []) \<and>
   checkAngleOfArrival (Num 100) (Some local_sample)
       [(''a'', remote_sample ''a''), (''b'', node ''b'' [])] (aoa_sample 2 [])
     = Some (aoa_sample 2 []) \<and>
   assuranceLevel (aoa_sample 2 []) = Unavailable \<and>
   published_aoa (aoa_sample 2 []) = [] \<and>
   map_option assuranceLevel
     (checkAngleOfArrival (Num 100) (Some local_sample)
       [(''a'', node ''a'' []), (''b'', remote_sample ''b'')] (aoa_sample 2 []))
     = Some Assured \<and>
   map_option (\<lambda>s. length (published_aoa s))
     (checkAngleOfArrival (Num 100) (Some local_sample)
       [(''a'', node ''a'' []), (''b'', remote_sample ''b'')] (aoa_sample 2 []))
     = Some 1"
  by (simp add: sample_defs cycle_defs)

subsection \<open>The cycle never meets an empty vote vector\<close>

text \<open>Every entry of the vote map is created by a \<open>push_back\<close>, so no vote vector is
  empty, \<open>std::max_element\<close> always finds an element, and the evaluation cycle returns
  a state for every input.\<close>

lemma push_back_at_entries:
  "e \<in> set (push_back_at k v m) \<Longrightarrow> e \<in> set m \<or> (\<exists>vs. snd e = vs @ [v])"
  by (induction m) (auto split: if_splits)

lemma push_back_at_nonempty:
  "\<forall>e \<in> set m. snd e \<noteq> [] \<Longrightarrow> \<forall>e \<in> set (push_back_at k v m). snd e \<noteq> []"
  using push_back_at_entries by fastforce

lemma sdLoop_nonempty:
  "\<forall>e \<in> set votes. snd e \<noteq> [] \<Longrightarrow> \<forall>e \<in> set (sdLoop s diffMap rest votes). snd e \<noteq> []"
proof (induction rest arbitrary: votes)
  case Nil
  then show ?case by simp
next
  case (Cons sd rest)
  obtain l where st:
    "sdLoop s diffMap (sd # rest) votes = sdLoop s diffMap rest (push_back_at (fst sd) l votes)"
    using sdLoop_step by blast
  show ?case
    unfolding st by (rule Cons.IH) (rule push_back_at_nonempty [OF Cons.prems])
qed

lemma localLoop_nonempty:
  "\<forall>e \<in> set votes. snd e \<noteq> [] \<Longrightarrow>
   \<forall>e \<in> set (fst (snd (localLoop rng remoteObservables los (singleDiffMap, votes, s)))). snd e \<noteq> []"
proof (induction los arbitrary: singleDiffMap votes s)
  case Nil
  then show ?case by simp
next
  case (Cons e los)
  obtain prn lo where e: "e = (prn, lo)" by (cases e)
  from localLoop_step [of rng remoteObservables prn lo los singleDiffMap votes s]
  obtain singleDiffMap' s' where
    st: "localLoop rng remoteObservables ((prn, lo) # los) (singleDiffMap, votes, s) =
           localLoop rng remoteObservables los
             (singleDiffMap',
              if pseudorangeValid lo then push_back_at prn (assurance lo) votes else votes,
              s')"
    by blast
  show ?case
    unfolding e st using Cons.prems by (intro Cons.IH) (simp add: push_back_at_nonempty)
qed

lemma processRemote_nonempty:
  assumes "\<forall>e \<in> set votes. snd e \<noteq> []"
  shows "\<forall>e \<in> set (fst (processRemote checkTime localObs remote votes s)). snd e \<noteq> []"
proof -
  let ?r = "localLoop (remoteRange (snd remote)) (observables (remoteObs (snd remote)))
              (observables localObs) ([], votes, s)"
  obtain singleDiffMap votes1 s1 where r: "?r = (singleDiffMap, votes1, s1)"
    by (cases ?r)
  from localLoop_nonempty [OF assms, of "remoteRange (snd remote)"
      "observables (remoteObs (snd remote))" "observables localObs" "[]" s]
  have "\<forall>e \<in> set votes1. snd e \<noteq> []"
    by (simp add: r)
  then show ?thesis
    by (simp add: processRemote_def r Let_def nestedForLoopComparison_def sdLoop_nonempty)
qed

lemma remoteLoop_nonempty:
  "\<forall>e \<in> set votes. snd e \<noteq> [] \<Longrightarrow>
   \<forall>e \<in> set (fst (snd (remoteLoop checkTime localObs remotes votes s))). snd e \<noteq> []"
proof (induction remotes arbitrary: votes s)
  case Nil
  then show ?case by simp
next
  case (Cons remote rest)
  obtain votes' s' where p: "processRemote checkTime localObs remote votes s = (votes', s')"
    by (cases "processRemote checkTime localObs remote votes s")
  from processRemote_nonempty [OF Cons.prems, of checkTime localObs remote s]
  have n: "\<forall>e \<in> set votes'. snd e \<noteq> []"
    by (simp add: p)
  show ?case
    using Cons.prems Cons.IH [OF Cons.prems] Cons.IH [OF n] by (simp add: p)
qed

lemma setPrnLoop_returns:
  "\<forall>e \<in> set votes. snd e \<noteq> [] \<Longrightarrow> \<exists>levels'. setPrnLoop votes levels = Some levels'"
proof (induction votes arbitrary: levels)
  case Nil
  then show ?case by simp
next
  case (Cons e votes)
  obtain k vs where e: "e = (k, vs)" by (cases e)
  from Cons.prems obtain x xs where vs: "vs = x # xs"
    by (cases vs) (auto simp: e)
  from Cons.prems show ?case
    by (simp add: e vs Cons.IH)
qed

lemma checkAngleOfArrival_returns:
  "\<exists>s'. checkAngleOfArrival checkTime localEntry remoteEntries s = Some s'"
proof -
  have "\<exists>s'. (case remoteLoop checkTime localObs remoteEntries [] s1 of
                 (True, votes, s2) \<Rightarrow> Some s2
               | (False, votes, s2) \<Rightarrow>
                   (case setPrnAssuranceLevels votes s2 of
                      None \<Rightarrow> None
                    | Some s3 \<Rightarrow> Some (calculateAssuranceLevel checkTime s3))) = Some s'"
    for localObs s1
  proof -
    obtain early votes s2 where r: "remoteLoop checkTime localObs remoteEntries [] s1 = (early, votes, s2)"
      by (cases "remoteLoop checkTime localObs remoteEntries [] s1")
    from remoteLoop_nonempty [of "[]" checkTime localObs remoteEntries s1]
    have "\<forall>e \<in> set votes. snd e \<noteq> []"
      by (simp add: r)
    from setPrnLoop_returns [OF this, of "prnAssuranceLevels s2"]
    show ?thesis
      by (cases early) (auto simp: r setPrnAssuranceLevels_def)
  qed
  then show ?thesis
    by (simp add: checkAngleOfArrival_def Let_def split: option.splits)
qed

end
